theory Spec2Isabelle
  imports Main
begin

section \<open>The schema model consumed by SchemaInfo\<close>

text \<open>
  \<^verbatim>\<open>torch/csrc/utils/schema_info.cpp\<close> analyses one operator schema together with the
  argument values known at a call site. The schema, type and value classes it consults
  (\<^verbatim>\<open>c10::FunctionSchema\<close>, \<^verbatim>\<open>c10::Argument\<close>, \<^verbatim>\<open>c10::AliasInfo\<close>, \<^verbatim>\<open>at::IValue\<close>)
  live in other units; their data is modelled here as far as the analysis reads it.
\<close>

type_synonym Symbol = string

text \<open>
  Modelled from the spec: \<^verbatim>\<open>at::Symbol\<close> and \<^verbatim>\<open>c10::AliasInfo\<close>, the alias annotation of the
  schema model (sections 2 and 6). An alias-set name is its qualified string; \<open>wildcardSet\<close>
  is the name that the annotation \<^verbatim>\<open>*\<close> stands for.
\<close>

definition wildcardSet :: Symbol where
  "wildcardSet = ''alias::*''"

text \<open>
  Modelled from the spec: an alias annotation holds the alias-set names before and after
  the call and the write flag (\<^verbatim>\<open>Tensor(a!)\<close> has before- and after-set \<^verbatim>\<open>a\<close> and is
  written); it is wildcard-after when \<^verbatim>\<open>*\<close> is among its after-sets. The sets are hash
  sets; the lists stand for them in one iteration order.
\<close>

record AliasInfo =
  beforeSets :: "Symbol list"
  afterSets :: "Symbol list"
  isWrite :: bool

definition isWildcardAfter :: "AliasInfo \<Rightarrow> bool" where
  "isWildcardAfter ai = (wildcardSet \<in> set (afterSets ai))"

text \<open>
  Modelled from the spec: the types of arguments and returns, as far as the type model of
  section 6 tells them apart: tensors, numbers and booleans, optionals and lists.
\<close>

datatype jit_type =
    TensorType
  | IntType
  | FloatType
  | BoolType
  | OptionalType jit_type
  | ListType jit_type

text \<open>
  Modelled from the spec: \<^verbatim>\<open>c10::Argument\<close> and \<^verbatim>\<open>c10::FunctionSchema\<close>, the schema model
  (sections 2 and 6): the operator's name and overload name and the ordered lists of
  arguments and returns, each entry with its name, type and optional alias annotation.
  Two schemas are equal when all of this is equal.
\<close>

record Argument =
  arg_name :: string
  arg_type :: jit_type
  alias_info :: "AliasInfo option"
  kwarg_only :: bool

record FunctionSchema =
  schema_name :: string
  overload_name :: string
  arguments :: "Argument list"
  returns :: "Argument list"

text \<open>
  Modelled from the spec: \<^verbatim>\<open>c10::SchemaArgument\<close>, a reference to one argument or return
  slot by role and index (section 3).
\<close>

datatype SchemaArgType = Input | Output

datatype SchemaArgument = SchemaArgument (sa_type: SchemaArgType) (sa_index: nat)

text \<open>
  Every \<^verbatim>\<open>TORCH_INTERNAL_ASSERT\<close> of the unit is an error value of its own; \<open>ExpectedBool\<close>
  is the failure of reading a boolean out of a value that holds none.
\<close>

datatype error =
    NoArgumentNamed string
  | NotEnoughArguments
  | InvalidIndex
  | ExpectedBool

definition getCorrectList :: "FunctionSchema \<Rightarrow> SchemaArgType \<Rightarrow> Argument list" where
  "getCorrectList sch t = (case t of Input \<Rightarrow> arguments sch | Output \<Rightarrow> returns sch)"

text \<open>
  Modelled from the spec: \<^verbatim>\<open>FunctionSchema::argumentIndexWithName\<close>, the schema model's
  name-to-index lookup over the argument list (section 6); the first argument of that
  name is found.
\<close>

fun index_of_name :: "string \<Rightarrow> Argument list \<Rightarrow> nat option" where
  "index_of_name nm [] = None"
| "index_of_name nm (a # as) =
     (if arg_name a = nm then Some 0 else map_option Suc (index_of_name nm as))"

definition argumentIndexWithName :: "FunctionSchema \<Rightarrow> string \<Rightarrow> nat option" where
  "argumentIndexWithName sch nm = index_of_name nm (arguments sch)"

text \<open>
  Modelled from the spec: \<^verbatim>\<open>FunctionSchema::mapTypeToAliasTypeSet\<close>, the type-to-alias-set
  mapping (section 6): the alias-relevant type set of a type, or none when the type is
  never aliasable. Tensors and lists are aliasable, an optional is as aliasable as its
  element, numbers and booleans are not.
\<close>

fun mapTypeToAliasTypeSet :: "jit_type \<Rightarrow> jit_type list option" where
  "mapTypeToAliasTypeSet TensorType = Some [TensorType]"
| "mapTypeToAliasTypeSet (ListType t) = Some [ListType t]"
| "mapTypeToAliasTypeSet (OptionalType t) = mapTypeToAliasTypeSet t"
| "mapTypeToAliasTypeSet IntType = None"
| "mapTypeToAliasTypeSet FloatType = None"
| "mapTypeToAliasTypeSet BoolType = None"

text \<open>
  Modelled from the spec: \<^verbatim>\<open>FunctionSchema::canAliasTypeSetsAlias\<close> (section 6): two
  alias type sets can alias when both exist and share a type.
\<close>

definition canAliasTypeSetsAlias :: "jit_type list option \<Rightarrow> jit_type list option \<Rightarrow> bool" where
  "canAliasTypeSetsAlias lhs rhs =
     (case lhs of None \<Rightarrow> False
      | Some ls \<Rightarrow> (case rhs of None \<Rightarrow> False
                   | Some rs \<Rightarrow> list_ex (\<lambda>l. list_ex (\<lambda>r. l = r) rs) ls))"

text \<open>
  Modelled from the spec: \<^verbatim>\<open>FunctionSchema::getAliasTypeSetContainedTypes\<close>, the container
  type model (sections 1 and 6): the types that values of the given types can hold,
  at any depth.
\<close>

fun containedTypes :: "jit_type \<Rightarrow> jit_type list" where
  "containedTypes (OptionalType t) = t # containedTypes t"
| "containedTypes (ListType t) = t # containedTypes t"
| "containedTypes TensorType = []"
| "containedTypes IntType = []"
| "containedTypes FloatType = []"
| "containedTypes BoolType = []"

definition getAliasTypeSetContainedTypes :: "jit_type list option \<Rightarrow> jit_type list option" where
  "getAliasTypeSetContainedTypes ts = map_option (\<lambda>l. remdups (concat (map containedTypes l))) ts"

text \<open>
  Modelled from the spec: \<^verbatim>\<open>FunctionSchema::may_alias\<close>, the declared may-alias predicate
  between two (role, index) pairs (section 6). An index outside its list is a contract
  violation that fails at once (sections 3 and 4.3). Two slots are declared to alias when
  their types can alias and the after-sets of their annotations share a name.
\<close>

definition declared_may_alias :: "Argument \<Rightarrow> Argument \<Rightarrow> bool" where
  "declared_may_alias l r =
     (canAliasTypeSetsAlias (mapTypeToAliasTypeSet (arg_type l)) (mapTypeToAliasTypeSet (arg_type r))
      \<and> (case alias_info l of None \<Rightarrow> False
         | Some la \<Rightarrow> (case alias_info r of None \<Rightarrow> False
                      | Some ra \<Rightarrow> list_ex (\<lambda>x. list_ex (\<lambda>y. x = y) (afterSets ra)) (afterSets la))))"

definition FunctionSchema_may_alias ::
  "FunctionSchema \<Rightarrow> SchemaArgument \<Rightarrow> SchemaArgument \<Rightarrow> error + bool" where
  "FunctionSchema_may_alias sch lhs rhs =
     (if \<not> sa_index lhs < length (getCorrectList sch (sa_type lhs)) then Inl InvalidIndex
      else if \<not> sa_index rhs < length (getCorrectList sch (sa_type rhs)) then Inl InvalidIndex
      else Inr (declared_may_alias (getCorrectList sch (sa_type lhs) ! sa_index lhs)
                                   (getCorrectList sch (sa_type rhs) ! sa_index rhs)))"

text \<open>
  Modelled from the spec: \<^verbatim>\<open>FunctionSchema::is_mutable\<close>, the declared per-argument
  mutability predicate (section 6): the slot carries an annotation with the write flag.
  An index outside its list fails at once.
\<close>

definition FunctionSchema_is_mutable :: "FunctionSchema \<Rightarrow> SchemaArgument \<Rightarrow> error + bool" where
  "FunctionSchema_is_mutable sch a =
     (if \<not> sa_index a < length (getCorrectList sch (sa_type a)) then Inl InvalidIndex
      else Inr (case alias_info (getCorrectList sch (sa_type a) ! sa_index a) of
                  None \<Rightarrow> False | Some ai \<Rightarrow> isWrite ai))"

subsection \<open>Bound values\<close>

text \<open>
  Modelled from the spec: \<^verbatim>\<open>at::IValue\<close>, the value interface (section 6). A tensor is
  known by its storage and a list by its object identity; \<open>isAliasOf\<close> is the
  identity-based alias check, \<open>getSubValues\<close> enumerates the reachable sub-values, and
  \<open>toBool\<close> extracts the boolean payload.
\<close>

datatype IValue =
    IVNone
  | IVBool bool
  | IVInt int
  | IVTensor nat
  | IVList nat "IValue list"

fun isAliasOf :: "IValue \<Rightarrow> IValue \<Rightarrow> bool" where
  "isAliasOf (IVTensor a) (IVTensor b) = (a = b)"
| "isAliasOf (IVList a xs) (IVList b ys) = (a = b)"
| "isAliasOf _ _ = False"

fun getSubValues :: "IValue \<Rightarrow> IValue list" where
  "getSubValues (IVTensor a) = [IVTensor a]"
| "getSubValues (IVList a xs) = IVList a xs # concat (map getSubValues xs)"
| "getSubValues IVNone = []"
| "getSubValues (IVBool b) = []"
| "getSubValues (IVInt i) = []"

text \<open>Membership in a \<^verbatim>\<open>HashAliasedIValues\<close> set, whose equality is \<open>isAliasOf\<close>.\<close>

definition subValues_count :: "IValue list \<Rightarrow> IValue \<Rightarrow> bool" where
  "subValues_count subs v = list_ex (\<lambda>u. isAliasOf u v) subs"

fun toBool :: "IValue \<Rightarrow> error + bool" where
  "toBool (IVBool b) = Inr b"
| "toBool _ = Inl ExpectedBool"

section \<open>The analysis state\<close>

text \<open>
  The fields of \<^verbatim>\<open>SchemaInfo\<close>. Each alias map is a vector of hash sets of argument
  indices; an index set is kept as a duplicate-free list in insertion order.
\<close>

record SchemaInfo =
  schema :: FunctionSchema
  alias_maps_current :: bool
  value_map :: "string \<rightharpoonup> IValue"
  wildcard_set :: "SchemaArgument set"
  container_set :: "SchemaArgument set"
  input_alias_map :: "nat list list"
  output_alias_map :: "nat list list"

section \<open>Binding values\<close>

text \<open>\<^verbatim>\<open>addArgumentValue(name, value)\<close>: the name must be an argument of the schema.\<close>

definition addArgumentValue :: "string \<Rightarrow> IValue \<Rightarrow> SchemaInfo \<Rightarrow> error + SchemaInfo" where
  "addArgumentValue nm v s =
     (case argumentIndexWithName (schema s) nm of
        None \<Rightarrow> Inl (NoArgumentNamed nm)
      | Some i \<Rightarrow> Inr (s\<lparr>value_map := (value_map s)(nm \<mapsto> v), alias_maps_current := False\<rparr>))"

text \<open>
  \<^verbatim>\<open>addArgumentValues(value_list)\<close>: the loop over the positions of the list; position
  \<open>i\<close> binds the \<open>i\<close>-th argument's name unless the entry is \<^verbatim>\<open>nullopt\<close>.
\<close>

fun bind_positional :: "nat \<Rightarrow> IValue option list \<Rightarrow> SchemaInfo \<Rightarrow> SchemaInfo" where
  "bind_positional i [] s = s"
| "bind_positional i (None # vs) s = bind_positional (Suc i) vs s"
| "bind_positional i (Some v # vs) s =
     bind_positional (Suc i) vs
       (s\<lparr>value_map := (value_map s)(arg_name (arguments (schema s) ! i) \<mapsto> v),
          alias_maps_current := False\<rparr>)"

definition addArgumentValues :: "IValue option list \<Rightarrow> SchemaInfo \<Rightarrow> error + SchemaInfo" where
  "addArgumentValues value_list s =
     (if \<not> length value_list \<le> length (arguments (schema s)) then Inl NotEnoughArguments
      else Inr (bind_positional 0 value_list s))"

text \<open>
  \<^verbatim>\<open>addArgumentValues(values)\<close> for a name-to-value map: the key-value pairs in the map's
  iteration order, each bound by \<open>addArgumentValue\<close>; the first failure ends the loop.
\<close>

fun addArgumentValues_map :: "(string \<times> IValue) list \<Rightarrow> SchemaInfo \<Rightarrow> error + SchemaInfo" where
  "addArgumentValues_map [] s = Inr s"
| "addArgumentValues_map (key_pair # rest) s =
     (case addArgumentValue (fst key_pair) (snd key_pair) s of
        Inl e \<Rightarrow> Inl e
      | Inr s' \<Rightarrow> addArgumentValues_map rest s')"

definition hasInputArgumentNamed :: "SchemaInfo \<Rightarrow> string \<Rightarrow> bool" where
  "hasInputArgumentNamed s nm = list_ex (\<lambda>arg. arg_name arg = nm) (arguments (schema s))"

section \<open>The alias maps\<close>

text \<open>
  The index pairs of the loops of \<^verbatim>\<open>generateAliasMaps\<close>, in the order the loops visit
  them: \<open>j\<close> from \<open>i\<close> on for the input alias map, every \<open>j\<close> for the other two.
\<close>

definition upper_pairs :: "nat \<Rightarrow> (nat \<times> nat) list" where
  "upper_pairs n = concat (map (\<lambda>i. map (Pair i) [i..<n]) [0..<n])"

definition all_pairs :: "nat \<Rightarrow> nat \<Rightarrow> (nat \<times> nat) list" where
  "all_pairs n m = concat (map (\<lambda>i. map (Pair i) [0..<m]) [0..<n])"

definition bound_value :: "FunctionSchema \<Rightarrow> (string \<rightharpoonup> IValue) \<Rightarrow> nat \<Rightarrow> IValue option" where
  "bound_value sch vm i = vm (arg_name (arguments sch ! i))"

text \<open>The body of the first loop nest: one step on the input alias map and the wildcard set.\<close>

definition fill_input ::
  "FunctionSchema \<Rightarrow> (string \<rightharpoonup> IValue) \<Rightarrow> nat \<times> nat \<Rightarrow>
   nat list list \<times> SchemaArgument set \<Rightarrow> nat list list \<times> SchemaArgument set" where
  "fill_input sch vm p acc =
     (let i = fst p; j = snd p; iam = fst acc; ws = snd acc in
      if i = j then (iam[i := List.insert i (iam ! i)], ws)
      else (case bound_value sch vm i of None \<Rightarrow> acc
            | Some vi \<Rightarrow> (case bound_value sch vm j of None \<Rightarrow> acc
               | Some vj \<Rightarrow>
                  if isAliasOf vi vj then
                    (let iam1 = iam[i := List.insert j (iam ! i)];
                         iam2 = iam1[j := List.insert i (iam1 ! j)]
                     in (iam2,
                         if SchemaArgument Input i \<in> ws then insert (SchemaArgument Input j) ws
                         else if SchemaArgument Input j \<in> ws then insert (SchemaArgument Input i) ws
                         else ws))
                  else acc)))"

text \<open>The body of the second loop nest: wildcards created by containers.\<close>

definition fill_container ::
  "FunctionSchema \<Rightarrow> (string \<rightharpoonup> IValue) \<Rightarrow> nat list list \<Rightarrow> nat \<times> nat \<Rightarrow>
   SchemaArgument set \<Rightarrow> SchemaArgument set" where
  "fill_container sch vm iam p ws =
     (let i = fst p; j = snd p in
      if j \<notin> set (iam ! i) then
        (case bound_value sch vm i of None \<Rightarrow> ws
         | Some vi \<Rightarrow> (case bound_value sch vm j of None \<Rightarrow> ws
            | Some vj \<Rightarrow>
               if subValues_count (getSubValues vi) vj then insert (SchemaArgument Input j) ws
               else ws))
      else ws)"

text \<open>
  The body of the third loop nest. The call of the schema's \<^verbatim>\<open>may_alias\<close> is made
  with indices inside the lists, where it returns a truth value.
\<close>

definition fill_output ::
  "FunctionSchema \<Rightarrow> nat list list \<Rightarrow> nat \<times> nat \<Rightarrow>
   nat list list \<times> SchemaArgument set \<Rightarrow> nat list list \<times> SchemaArgument set" where
  "fill_output sch iam p acc =
     (let i = fst p; j = snd p; oam = fst acc; ws = snd acc in
      if FunctionSchema_may_alias sch (SchemaArgument Input i) (SchemaArgument Output j) = Inr True
      then (oam[j := List.union (iam ! i) (oam ! j)],
            if SchemaArgument Input i \<in> ws then insert (SchemaArgument Output j) ws else ws)
      else acc)"

definition generateAliasMaps :: "SchemaInfo \<Rightarrow> SchemaInfo" where
  "generateAliasMaps s =
     (let sch = schema s; vm = value_map s;
          n = length (arguments sch); m = length (returns sch);
          a1 = fold (fill_input sch vm) (upper_pairs n) (replicate n [], wildcard_set s);
          ws2 = fold (fill_container sch vm (fst a1)) (all_pairs n n) (snd a1);
          a3 = fold (fill_output sch (fst a1)) (all_pairs n m) (replicate m [], ws2)
      in s\<lparr>alias_maps_current := True, input_alias_map := fst a1,
            output_alias_map := fst a3, wildcard_set := snd a3\<rparr>)"

text \<open>\<^verbatim>\<open>if (!alias_maps_current_) generateAliasMaps();\<close>\<close>

definition ensure_current :: "SchemaInfo \<Rightarrow> SchemaInfo" where
  "ensure_current s = (if \<not> alias_maps_current s then generateAliasMaps s else s)"

section \<open>Queries\<close>

text \<open>
  The table of \<^verbatim>\<open>getTrainingOps\<close>: the seven signatures as the schema parser reads
  them. An unnamed return has the empty name; the arguments after \<^verbatim>\<open>*\<close> are keyword-only.
\<close>

definition Arg :: "jit_type \<Rightarrow> string \<Rightarrow> Argument" where
  "Arg t nm = \<lparr>arg_name = nm, arg_type = t, alias_info = None, kwarg_only = False\<rparr>"

definition Ret :: "jit_type \<Rightarrow> Argument" where
  "Ret t = \<lparr>arg_name = [], arg_type = t, alias_info = None, kwarg_only = False\<rparr>"

definition written :: "string \<Rightarrow> AliasInfo" where
  "written a = \<lparr>beforeSets = [''alias::'' @ a], afterSets = [''alias::'' @ a], isWrite = True\<rparr>"

definition batch_norm_schema :: FunctionSchema where
  "batch_norm_schema =
     \<lparr>schema_name = ''aten::batch_norm'', overload_name = [],
      arguments = [Arg TensorType ''input'', Arg (OptionalType TensorType) ''weight'',
        Arg (OptionalType TensorType) ''bias'', Arg (OptionalType TensorType) ''running_mean'',
        Arg (OptionalType TensorType) ''running_var'', Arg BoolType ''training'',
        Arg FloatType ''momentum'', Arg FloatType ''eps'', Arg BoolType ''cudnn_enabled''],
      returns = [Ret TensorType]\<rparr>"

definition instance_norm_schema :: FunctionSchema where
  "instance_norm_schema =
     \<lparr>schema_name = ''aten::instance_norm'', overload_name = [],
      arguments = [Arg TensorType ''input'', Arg (OptionalType TensorType) ''weight'',
        Arg (OptionalType TensorType) ''bias'', Arg (OptionalType TensorType) ''running_mean'',
        Arg (OptionalType TensorType) ''running_var'', Arg BoolType ''use_input_stats'',
        Arg FloatType ''momentum'', Arg FloatType ''eps'', Arg BoolType ''cudnn_enabled''],
      returns = [Ret TensorType]\<rparr>"

definition batch_norm_impl_index_schema :: FunctionSchema where
  "batch_norm_impl_index_schema =
     \<lparr>schema_name = ''aten::_batch_norm_impl_index'', overload_name = [],
      arguments = [Arg TensorType ''input'', Arg (OptionalType TensorType) ''weight'',
        Arg (OptionalType TensorType) ''bias'', Arg (OptionalType TensorType) ''running_mean'',
        Arg (OptionalType TensorType) ''running_var'', Arg BoolType ''training'',
        Arg FloatType ''momentum'', Arg FloatType ''eps'', Arg BoolType ''cudnn_enabled''],
      returns = [Ret TensorType, Ret TensorType, Ret TensorType, Ret TensorType, Ret IntType]\<rparr>"

definition cudnn_batch_norm_schema :: FunctionSchema where
  "cudnn_batch_norm_schema =
     \<lparr>schema_name = ''aten::cudnn_batch_norm'', overload_name = [],
      arguments = [Arg TensorType ''input'', Arg TensorType ''weight'',
        Arg (OptionalType TensorType) ''bias'', Arg (OptionalType TensorType) ''running_mean'',
        Arg (OptionalType TensorType) ''running_var'', Arg BoolType ''training'',
        Arg FloatType ''exponential_average_factor'', Arg FloatType ''epsilon''],
      returns = [Ret TensorType, Ret TensorType, Ret TensorType, Ret TensorType]\<rparr>"

definition miopen_batch_norm_schema :: FunctionSchema where
  "miopen_batch_norm_schema =
     \<lparr>schema_name = ''aten::miopen_batch_norm'', overload_name = [],
      arguments = [Arg TensorType ''input'', Arg TensorType ''weight'',
        Arg (OptionalType TensorType) ''bias'', Arg (OptionalType TensorType) ''running_mean'',
        Arg (OptionalType TensorType) ''running_var'', Arg BoolType ''training'',
        Arg FloatType ''exponential_average_factor'', Arg FloatType ''epsilon''],
      returns = [Ret TensorType, Ret TensorType, Ret TensorType]\<rparr>"

definition native_batch_norm_schema :: FunctionSchema where
  "native_batch_norm_schema =
     \<lparr>schema_name = ''aten::native_batch_norm'', overload_name = [],
      arguments = [Arg TensorType ''input'', Arg (OptionalType TensorType) ''weight'',
        Arg (OptionalType TensorType) ''bias'', Arg (OptionalType TensorType) ''running_mean'',
        Arg (OptionalType TensorType) ''running_var'', Arg BoolType ''training'',
        Arg FloatType ''momentum'', Arg FloatType ''eps''],
      returns = [Ret TensorType, Ret TensorType, Ret TensorType]\<rparr>"

definition native_batch_norm_out_schema :: FunctionSchema where
  "native_batch_norm_out_schema =
     \<lparr>schema_name = ''aten::native_batch_norm'', overload_name = ''out'',
      arguments = [Arg TensorType ''input'', Arg (OptionalType TensorType) ''weight'',
        Arg (OptionalType TensorType) ''bias'', Arg (OptionalType TensorType) ''running_mean'',
        Arg (OptionalType TensorType) ''running_var'', Arg BoolType ''training'',
        Arg FloatType ''momentum'', Arg FloatType ''eps'',
        \<lparr>arg_name = ''out'', arg_type = TensorType, alias_info = Some (written ''a''),
         kwarg_only = True\<rparr>,
        \<lparr>arg_name = ''save_mean'', arg_type = TensorType, alias_info = Some (written ''b''),
         kwarg_only = True\<rparr>,
        \<lparr>arg_name = ''save_invstd'', arg_type = TensorType, alias_info = Some (written ''c''),
         kwarg_only = True\<rparr>],
      returns = [(Ret TensorType)\<lparr>alias_info := Some (written ''a'')\<rparr>,
        (Ret TensorType)\<lparr>alias_info := Some (written ''b'')\<rparr>,
        (Ret TensorType)\<lparr>alias_info := Some (written ''c'')\<rparr>]\<rparr>"

definition getTrainingOps :: "FunctionSchema list" where
  "getTrainingOps =
     [batch_norm_schema, instance_norm_schema, batch_norm_impl_index_schema,
      cudnn_batch_norm_schema, miopen_batch_norm_schema, native_batch_norm_schema,
      native_batch_norm_out_schema]"

text \<open>\<^verbatim>\<open>std::any_of\<close> over a sequence, with a predicate that can fail.\<close>

fun any_of :: "('a \<Rightarrow> error + bool) \<Rightarrow> 'a list \<Rightarrow> error + bool" where
  "any_of p [] = Inr False"
| "any_of p (x # xs) =
     (case p x of Inl e \<Rightarrow> Inl e
      | Inr b \<Rightarrow> if b then Inr True else any_of p xs)"

text \<open>
  One of \<^verbatim>\<open>has_training\<close>, \<^verbatim>\<open>has_train\<close>, \<^verbatim>\<open>has_use_input_stats\<close>: the flag is an
  argument and unbound, or it is bound and its value is true.
\<close>

definition flag_is_set :: "SchemaInfo \<Rightarrow> string \<Rightarrow> error + bool" where
  "flag_is_set s nm =
     (if hasInputArgumentNamed s nm \<and> value_map s nm = None then Inr True
      else (case value_map s nm of None \<Rightarrow> Inr False | Some v \<Rightarrow> toBool v))"

text \<open>The predicate \<^verbatim>\<open>is_mutable\<close> applies to each index of the alias set.\<close>

definition aliasing_index_mutable :: "SchemaInfo \<Rightarrow> nat \<Rightarrow> error + bool" where
  "aliasing_index_mutable s aliasing_index =
     (let special_case =
            (arg_name (arguments (schema s) ! aliasing_index) = ''running_mean''
             \<or> arg_name (arguments (schema s) ! aliasing_index) = ''running_var'');
          is_training_op = list_ex (\<lambda>training_op. schema s = training_op) getTrainingOps
      in if special_case \<and> is_training_op then
           (case flag_is_set s ''training'' of Inl e \<Rightarrow> Inl e
            | Inr has_training \<Rightarrow>
           (case flag_is_set s ''train'' of Inl e \<Rightarrow> Inl e
            | Inr has_train \<Rightarrow>
           (case flag_is_set s ''use_input_stats'' of Inl e \<Rightarrow> Inl e
            | Inr has_use_input_stats \<Rightarrow>
                Inr (has_training \<or> has_train \<or> has_use_input_stats))))
         else FunctionSchema_is_mutable (schema s) (SchemaArgument Input aliasing_index))"

text \<open>\<^verbatim>\<open>is_mutable(argument)\<close>; the state returned holds the regenerated maps.\<close>

definition is_mutable_arg :: "SchemaInfo \<Rightarrow> SchemaArgument \<Rightarrow> error + bool \<times> SchemaInfo" where
  "is_mutable_arg s argument =
     (if \<not> sa_index argument < length (getCorrectList (schema s) (sa_type argument))
      then Inl InvalidIndex
      else
        (let s1 = ensure_current s;
             correct_map = (if sa_type argument = Input then input_alias_map s1
                            else output_alias_map s1)
         in case any_of (aliasing_index_mutable s1) (correct_map ! sa_index argument) of
              Inl e \<Rightarrow> Inl e
            | Inr b \<Rightarrow> Inr (b, s1)))"

text \<open>\<^verbatim>\<open>is_mutable(name)\<close>\<close>

definition is_mutable_name :: "SchemaInfo \<Rightarrow> string \<Rightarrow> error + bool \<times> SchemaInfo" where
  "is_mutable_name s nm =
     (case argumentIndexWithName (schema s) nm of
        None \<Rightarrow> Inl (NoArgumentNamed nm)
      | Some i \<Rightarrow> is_mutable_arg s (SchemaArgument Input i))"

text \<open>\<^verbatim>\<open>is_mutable()\<close>: the first mutable input argument ends the loop.\<close>

fun is_mutable_from :: "nat list \<Rightarrow> SchemaInfo \<Rightarrow> error + bool \<times> SchemaInfo" where
  "is_mutable_from [] s = Inr (False, s)"
| "is_mutable_from (i # rest) s =
     (case is_mutable_arg s (SchemaArgument Input i) of
        Inl e \<Rightarrow> Inl e
      | Inr r \<Rightarrow> if fst r then Inr (True, snd r) else is_mutable_from rest (snd r))"

definition is_mutable :: "SchemaInfo \<Rightarrow> error + bool \<times> SchemaInfo" where
  "is_mutable s = is_mutable_from [0..<length (arguments (schema s))] s"

text \<open>
  Modelled from the spec: the operator-tag registry (\<^verbatim>\<open>c10::Dispatcher\<close>, section 6):
  given an operator name and overload name, whether the operator exists and which tags
  it carries. The registry is a parameter of \<open>is_nondeterministic\<close>.
\<close>

datatype Tag = nondeterministic_seeded | nondeterministic_bitwise | pointwise

type_synonym Dispatcher = "string \<times> string \<Rightarrow> Tag list option"

definition has_nondeterministic_tag :: "Dispatcher \<Rightarrow> FunctionSchema \<Rightarrow> bool" where
  "has_nondeterministic_tag findOp sch =
     (case findOp (schema_name sch, overload_name sch) of
        None \<Rightarrow> False
      | Some tags \<Rightarrow> nondeterministic_seeded \<in> set tags)"

definition dropout_schema :: FunctionSchema where
  "dropout_schema =
     \<lparr>schema_name = ''aten::dropout'', overload_name = [],
      arguments = [Arg TensorType ''input'', Arg FloatType ''p'', Arg BoolType ''train''],
      returns = [Ret TensorType]\<rparr>"

definition is_nondeterministic :: "Dispatcher \<Rightarrow> SchemaInfo \<Rightarrow> error + bool" where
  "is_nondeterministic findOp s =
     (case (if dropout_schema = schema s then value_map s ''train'' else None) of
        None \<Rightarrow> Inr (has_nondeterministic_tag findOp (schema s))
      | Some v \<Rightarrow>
          (case toBool v of Inl e \<Rightarrow> Inl e
           | Inr b \<Rightarrow> if \<not> b then Inr False
                      else Inr (has_nondeterministic_tag findOp (schema s))))"

text \<open>\<^verbatim>\<open>may_alias(lhs, rhs)\<close>; the state returned holds the regenerated maps.\<close>

definition may_alias ::
  "SchemaInfo \<Rightarrow> SchemaArgument \<Rightarrow> SchemaArgument \<Rightarrow> error + bool \<times> SchemaInfo" where
  "may_alias s lhs rhs =
     (case FunctionSchema_may_alias (schema s) lhs rhs of
        Inl e \<Rightarrow> Inl e
      | Inr basic_check \<Rightarrow>
          if basic_check then Inr (True, s)
          else
            (let lhsAliasTypeSet = mapTypeToAliasTypeSet
                   (arg_type (getCorrectList (schema s) (sa_type lhs) ! sa_index lhs));
                 rhsAliasTypeSet = mapTypeToAliasTypeSet
                   (arg_type (getCorrectList (schema s) (sa_type rhs) ! sa_index rhs));
                 types_can_alias = canAliasTypeSetsAlias lhsAliasTypeSet rhsAliasTypeSet
             in if \<not> types_can_alias then Inr (False, s)
                else
                  (let s1 = ensure_current s;
                       wildcard_alias_check = (lhs \<in> wildcard_set s1 \<and> rhs \<in> wildcard_set s1)
                   in if wildcard_alias_check then Inr (True, s1)
                      else if sa_type lhs = Input \<and> sa_type rhs = Input then
                        Inr (sa_index rhs \<in> set (input_alias_map s1 ! sa_index lhs), s1)
                      else if sa_type lhs = Output \<and> sa_type rhs = Output then
                        Inr (list_ex (\<lambda>lhs_alias_input.
                                 lhs_alias_input \<in> set (output_alias_map s1 ! sa_index rhs))
                               (output_alias_map s1 ! sa_index lhs), s1)
                      else if sa_type lhs = Output then
                        Inr (sa_index rhs \<in> set (output_alias_map s1 ! sa_index lhs), s1)
                      else
                        Inr (sa_index lhs \<in> set (output_alias_map s1 ! sa_index rhs), s1))))"

section \<open>Classification\<close>

text \<open>
  The state the passes of \<^verbatim>\<open>initSchemaInfo\<close> work on: the local sets \<^verbatim>\<open>seen\<close> and
  \<^verbatim>\<open>duplicates\<close>, the wildcard and container sets of the object, and the warnings
  that \<^verbatim>\<open>TORCH_WARN\<close> has emitted, oldest first.
\<close>

record init_state =
  seen :: "Symbol set"
  duplicates :: "Symbol set"
  warnings :: "string list"
  wildcards :: "SchemaArgument set"
  containers :: "SchemaArgument set"

definition warn_duplicate :: "Symbol \<Rightarrow> string" where
  "warn_duplicate st =
     st @ '' appears twice in same argument list which will make aliasing checks more conservative.''"

text \<open>The loop over the after-sets of one annotation that is not wildcard-after.\<close>

fun track_afterSets :: "Symbol list \<Rightarrow> init_state \<Rightarrow> init_state" where
  "track_afterSets [] st = st"
| "track_afterSets (x # xs) st =
     track_afterSets xs
       (if x \<in> seen st
        then st\<lparr>warnings := warnings st @ [warn_duplicate x], duplicates := insert x (duplicates st)\<rparr>
        else st\<lparr>seen := insert x (seen st)\<rparr>)"

definition init_entry :: "SchemaArgType \<Rightarrow> nat \<Rightarrow> Argument \<Rightarrow> init_state \<Rightarrow> init_state" where
  "init_entry t i argument st =
     (let st1 = (case alias_info argument of
                   None \<Rightarrow> st
                 | Some ai \<Rightarrow>
                     if isWildcardAfter ai
                     then st\<lparr>wildcards := insert (SchemaArgument t i) (wildcards st)\<rparr>
                     else track_afterSets (afterSets ai) st);
          contained_types = getAliasTypeSetContainedTypes (mapTypeToAliasTypeSet (arg_type argument))
      in case contained_types of
           None \<Rightarrow> st1
         | Some [] \<Rightarrow> st1
         | Some (ct # cts) \<Rightarrow> st1\<lparr>containers := insert (SchemaArgument t i) (containers st1)\<rparr>)"

fun init_loop :: "SchemaArgType \<Rightarrow> nat \<Rightarrow> Argument list \<Rightarrow> init_state \<Rightarrow> init_state" where
  "init_loop t i [] st = st"
| "init_loop t i (a # as) st = init_loop t (Suc i) as (init_entry t i a st)"

text \<open>The lambda \<^verbatim>\<open>init_schema_arguments\<close>: \<^verbatim>\<open>seen\<close> starts empty for each list.\<close>

definition init_schema_arguments :: "Argument list \<Rightarrow> SchemaArgType \<Rightarrow> init_state \<Rightarrow> init_state" where
  "init_schema_arguments arguments_list t st = init_loop t 0 arguments_list (st\<lparr>seen := {}\<rparr>)"

definition ensure_entry ::
  "Symbol set \<Rightarrow> SchemaArgType \<Rightarrow> nat \<Rightarrow> Argument \<Rightarrow> SchemaArgument set \<Rightarrow> SchemaArgument set" where
  "ensure_entry dups t i argument ws =
     (case alias_info argument of
        None \<Rightarrow> ws
      | Some ai \<Rightarrow>
          fold (\<lambda>st w. if st \<in> dups then insert (SchemaArgument t i) w else w) (afterSets ai) ws)"

fun ensure_loop ::
  "Symbol set \<Rightarrow> SchemaArgType \<Rightarrow> nat \<Rightarrow> Argument list \<Rightarrow> SchemaArgument set \<Rightarrow> SchemaArgument set" where
  "ensure_loop dups t i [] ws = ws"
| "ensure_loop dups t i (a # as) ws = ensure_loop dups t (Suc i) as (ensure_entry dups t i a ws)"

definition ensureConservativity ::
  "Symbol set \<Rightarrow> Argument list \<Rightarrow> SchemaArgType \<Rightarrow> SchemaArgument set \<Rightarrow> SchemaArgument set" where
  "ensureConservativity dups arguments_list t ws = ensure_loop dups t 0 arguments_list ws"

text \<open>\<^verbatim>\<open>initSchemaInfo\<close>, returning the object and the warnings emitted.\<close>

definition initSchemaInfo :: "SchemaInfo \<Rightarrow> SchemaInfo \<times> string list" where
  "initSchemaInfo s =
     (let st0 = \<lparr>seen = {}, duplicates = {}, warnings = [],
                 wildcards = wildcard_set s, containers = container_set s\<rparr>;
          st1 = init_schema_arguments (arguments (schema s)) Input st0;
          st2 = init_schema_arguments (returns (schema s)) Output st1;
          ws3 = ensureConservativity (duplicates st2) (arguments (schema s)) Input (wildcards st2);
          ws4 = ensureConservativity (duplicates st2) (returns (schema s)) Output ws3
      in (s\<lparr>wildcard_set := ws4, container_set := containers st2\<rparr>, warnings st2))"

text \<open>
  Modelled from the spec: the constructor of \<^verbatim>\<open>SchemaInfo\<close> (declared in the header,
  which is not part of this unit). Classification is computed once at construction
  (section 3): the object starts with no bindings, empty sets and stale alias maps, and
  \<open>initSchemaInfo\<close> runs on it.
\<close>

definition new_SchemaInfo :: "FunctionSchema \<Rightarrow> SchemaInfo \<times> string list" where
  "new_SchemaInfo sch =
     initSchemaInfo \<lparr>schema = sch, alias_maps_current = False, value_map = Map.empty,
                     wildcard_set = {}, container_set = {},
                     input_alias_map = [], output_alias_map = []\<rparr>"

text \<open>
  The states an object can be in: the state after construction, and every state that a
  public operation returns from such a state. \<^verbatim>\<open>may_contain_alias\<close> changes the state
  only by regenerating the alias maps, which is the rule \<open>r_generate\<close>. An operation that
  ends in an assertion failure leaves the object in a state of this relation as well:
  unchanged, with the alias maps regenerated, or with the bindings of a shorter map applied.
\<close>

inductive reachable :: "SchemaInfo \<Rightarrow> bool" where
  r_new: "reachable (fst (new_SchemaInfo sch))"
| r_bind: "reachable s \<Longrightarrow> addArgumentValue nm v s = Inr s' \<Longrightarrow> reachable s'"
| r_bind_list: "reachable s \<Longrightarrow> addArgumentValues value_list s = Inr s' \<Longrightarrow> reachable s'"
| r_bind_map: "reachable s \<Longrightarrow> addArgumentValues_map values s = Inr s' \<Longrightarrow> reachable s'"
| r_generate: "reachable s \<Longrightarrow> reachable (ensure_current s)"
| r_is_mutable_arg: "reachable s \<Longrightarrow> is_mutable_arg s a = Inr (b, s') \<Longrightarrow> reachable s'"
| r_is_mutable_name: "reachable s \<Longrightarrow> is_mutable_name s nm = Inr (b, s') \<Longrightarrow> reachable s'"
| r_is_mutable: "reachable s \<Longrightarrow> is_mutable s = Inr (b, s') \<Longrightarrow> reachable s'"
| r_may_alias: "reachable s \<Longrightarrow> may_alias s lhs rhs = Inr (b, s') \<Longrightarrow> reachable s'"

section \<open>Auxiliary notions for the proofs\<close>

text \<open>
  Two bound arguments hold alias-identical values. The first loop nest asks this for
  \<open>i < j\<close> only.
\<close>

definition aliased :: "FunctionSchema \<Rightarrow> (string \<rightharpoonup> IValue) \<Rightarrow> nat \<Rightarrow> nat \<Rightarrow> bool" where
  "aliased sch vm i j =
     (case bound_value sch vm i of None \<Rightarrow> False
      | Some vi \<Rightarrow> (case bound_value sch vm j of None \<Rightarrow> False
                   | Some vj \<Rightarrow> isAliasOf vi vj))"

text \<open>
  What one step of the first and of the third loop nest does to the alias map alone,
  and the maps that the loops build from the empty maps.
\<close>

definition alias_step ::
  "FunctionSchema \<Rightarrow> (string \<rightharpoonup> IValue) \<Rightarrow> nat \<times> nat \<Rightarrow> nat list list \<Rightarrow> nat list list" where
  "alias_step sch vm p iam =
     (if fst p = snd p then iam[fst p := List.insert (fst p) (iam ! fst p)]
      else if aliased sch vm (fst p) (snd p)
      then (iam[fst p := List.insert (snd p) (iam ! fst p)])
             [snd p := List.insert (fst p) (iam[fst p := List.insert (snd p) (iam ! fst p)] ! snd p)]
      else iam)"

definition computed_input_map :: "FunctionSchema \<Rightarrow> (string \<rightharpoonup> IValue) \<Rightarrow> nat list list" where
  "computed_input_map sch vm =
     fold (alias_step sch vm) (upper_pairs (length (arguments sch)))
       (replicate (length (arguments sch)) [])"

definition output_step ::
  "FunctionSchema \<Rightarrow> nat list list \<Rightarrow> nat \<times> nat \<Rightarrow> nat list list \<Rightarrow> nat list list" where
  "output_step sch iam p oam =
     (if FunctionSchema_may_alias sch (SchemaArgument Input (fst p)) (SchemaArgument Output (snd p))
         = Inr True
      then oam[snd p := List.union (iam ! fst p) (oam ! snd p)]
      else oam)"

definition computed_output_map :: "FunctionSchema \<Rightarrow> (string \<rightharpoonup> IValue) \<Rightarrow> nat list list" where
  "computed_output_map sch vm =
     fold (output_step sch (computed_input_map sch vm))
       (all_pairs (length (arguments sch)) (length (returns sch)))
       (replicate (length (returns sch)) [])"

text \<open>The pair \<open>p\<close> of the first loop nest puts \<open>k\<close> into the alias set of \<open>a\<close>.\<close>

definition linked ::
  "FunctionSchema \<Rightarrow> (string \<rightharpoonup> IValue) \<Rightarrow> nat \<times> nat \<Rightarrow> nat \<Rightarrow> nat \<Rightarrow> bool" where
  "linked sch vm p a k =
     (if fst p = snd p then a = fst p \<and> k = fst p
      else aliased sch vm (fst p) (snd p)
           \<and> ((a = fst p \<and> k = snd p) \<or> (a = snd p \<and> k = fst p)))"

text \<open>
  Alias maps marked current are the maps of the current bindings: the invariant of the
  staleness flag.
\<close>

definition maps_fresh :: "SchemaInfo \<Rightarrow> bool" where
  "maps_fresh s =
     (\<not> alias_maps_current s
      \<or> (input_alias_map s = computed_input_map (schema s) (value_map s)
         \<and> output_alias_map s = computed_output_map (schema s) (value_map s)))"

text \<open>Sequencing of operations that can fail.\<close>

definition then_do :: "error + 'a \<Rightarrow> ('a \<Rightarrow> error + 'b) \<Rightarrow> error + 'b" where
  "then_do r f = (case r of Inl e \<Rightarrow> Inl e | Inr x \<Rightarrow> f x)"

text \<open>The three binding operations, and a sequence of them.\<close>

datatype binding =
    BindName string IValue
  | BindPositional "IValue option list"
  | BindMap "(string \<times> IValue) list"

fun apply_binding :: "binding \<Rightarrow> SchemaInfo \<Rightarrow> error + SchemaInfo" where
  "apply_binding (BindName nm v) s = addArgumentValue nm v s"
| "apply_binding (BindPositional value_list) s = addArgumentValues value_list s"
| "apply_binding (BindMap values) s = addArgumentValues_map values s"

fun apply_bindings :: "binding list \<Rightarrow> SchemaInfo \<Rightarrow> error + SchemaInfo" where
  "apply_bindings [] s = Inr s"
| "apply_bindings (b # bs) s = then_do (apply_binding b s) (apply_bindings bs)"

section \<open>Example schemas and states\<close>

text \<open>The schema \<^verbatim>\<open>op(Tensor(a!) x, Tensor y) -> Tensor(a!)\<close>.\<close>

definition op_schema :: FunctionSchema where
  "op_schema =
     \<lparr>schema_name = ''op'', overload_name = [],
      arguments = [(Arg TensorType ''x'')\<lparr>alias_info := Some (written ''a'')\<rparr>, Arg TensorType ''y''],
      returns = [(Ret TensorType)\<lparr>alias_info := Some (written ''a'')\<rparr>]\<rparr>"

text \<open>An object for \<open>op_schema\<close> whose two arguments are bound to one tensor.\<close>

definition op_same_tensor :: SchemaInfo where
  "op_same_tensor =
     (fst (new_SchemaInfo op_schema))
       \<lparr>value_map := [''x'' \<mapsto> IVTensor 5, ''y'' \<mapsto> IVTensor 5],
        alias_maps_current := False\<rparr>"

text \<open>A reference to an argument or return slot that exists in the schema.\<close>

definition valid_argument :: "SchemaInfo \<Rightarrow> SchemaArgument \<Rightarrow> bool" where
  "valid_argument s a = (sa_index a < length (getCorrectList (schema s) (sa_type a)))"

text \<open>A type is aliasable when its alias type set can alias itself.\<close>

definition aliasable :: "jit_type \<Rightarrow> bool" where
  "aliasable t = canAliasTypeSetsAlias (mapTypeToAliasTypeSet t) (mapTypeToAliasTypeSet t)"

text \<open>The schema \<^verbatim>\<open>plain(Tensor x, int n) -> Tensor\<close>, without annotations.\<close>

definition plain_schema :: FunctionSchema where
  "plain_schema =
     \<lparr>schema_name = ''plain'', overload_name = [],
      arguments = [Arg TensorType ''x'', Arg IntType ''n''],
      returns = [Ret TensorType]\<rparr>"

text \<open>The schema \<^verbatim>\<open>lists(Tensor[] a, Tensor?[] b) -> Tensor\<close>, without annotations.\<close>

definition lists_schema :: FunctionSchema where
  "lists_schema =
     \<lparr>schema_name = ''lists'', overload_name = [],
      arguments = [Arg (ListType TensorType) ''a'', Arg (ListType (OptionalType TensorType)) ''b''],
      returns = [Ret TensorType]\<rparr>"






text \<open>A registry in which \<^verbatim>\<open>aten::dropout\<close> carries the tag and nothing else is registered.\<close>

definition dropout_registry :: Dispatcher where
  "dropout_registry nm =
     (if nm = (''aten::dropout'', []) then Some [pointwise, nondeterministic_seeded] else None)"

text \<open>An object for \<^verbatim>\<open>aten::dropout\<close> with \<open>train\<close> bound to the given value.\<close>

definition dropout_train :: "IValue \<Rightarrow> SchemaInfo" where
  "dropout_train v =
     (fst (new_SchemaInfo dropout_schema))
       \<lparr>value_map := [''train'' \<mapsto> v], alias_maps_current := False\<rparr>"

text \<open>
  The annotation of a slot has the name in its after-set; the slot is tracked for the
  name when, in addition, the annotation is not wildcard-after (only then does the first
  pass of \<open>initSchemaInfo\<close> look at its after-sets). The occurrences of a name in a list
  are the slots tracked for it.
\<close>

definition has_after :: "Argument \<Rightarrow> Symbol \<Rightarrow> bool" where
  "has_after a n = (case alias_info a of None \<Rightarrow> False | Some ai \<Rightarrow> n \<in> set (afterSets ai))"

definition tracked :: "Argument \<Rightarrow> Symbol \<Rightarrow> bool" where
  "tracked a n =
     (case alias_info a of None \<Rightarrow> False
      | Some ai \<Rightarrow> \<not> isWildcardAfter ai \<and> n \<in> set (afterSets ai))"

definition occurrences :: "Argument list \<Rightarrow> Symbol \<Rightarrow> nat" where
  "occurrences l n = length (filter (\<lambda>a. tracked a n) l)"

text \<open>The after-sets are sets in the source: no list that stands for one repeats a name.\<close>

definition afterSets_distinct :: "Argument list \<Rightarrow> bool" where
  "afterSets_distinct l =
     list_all (\<lambda>a. case alias_info a of None \<Rightarrow> True | Some ai \<Rightarrow> distinct (afterSets ai)) l"

definition read_only :: "Symbol list \<Rightarrow> AliasInfo" where
  "read_only sets = \<lparr>beforeSets = sets, afterSets = sets, isWrite = False\<rparr>"

text \<open>The schema \<^verbatim>\<open>pair(Tensor(a) x, Tensor(a) y, Tensor z) -> Tensor(a)\<close>.\<close>

definition pair_schema :: FunctionSchema where
  "pair_schema =
     \<lparr>schema_name = ''pair'', overload_name = [],
      arguments = [(Arg TensorType ''x'')\<lparr>alias_info := Some (read_only [''alias::a''])\<rparr>,
        (Arg TensorType ''y'')\<lparr>alias_info := Some (read_only [''alias::a''])\<rparr>,
        Arg TensorType ''z''],
      returns = [(Ret TensorType)\<lparr>alias_info := Some (read_only [''alias::a''])\<rparr>]\<rparr>"

text \<open>The schema \<^verbatim>\<open>three(Tensor(a) x, Tensor(a) y, Tensor(a) z) -> Tensor\<close>.\<close>

definition three_schema :: FunctionSchema where
  "three_schema =
     \<lparr>schema_name = ''three'', overload_name = [],
      arguments = [(Arg TensorType ''x'')\<lparr>alias_info := Some (read_only [''alias::a''])\<rparr>,
        (Arg TensorType ''y'')\<lparr>alias_info := Some (read_only [''alias::a''])\<rparr>,
        (Arg TensorType ''z'')\<lparr>alias_info := Some (read_only [''alias::a''])\<rparr>],
      returns = [Ret TensorType]\<rparr>"

text \<open>The schema \<^verbatim>\<open>mixed(Tensor(b|*) x, Tensor(b) y) -> Tensor\<close>.\<close>

definition mixed_schema :: FunctionSchema where
  "mixed_schema =
     \<lparr>schema_name = ''mixed'', overload_name = [],
      arguments = [(Arg TensorType ''x'')\<lparr>alias_info := Some (read_only [''alias::b'', wildcardSet])\<rparr>,
        (Arg TensorType ''y'')\<lparr>alias_info := Some (read_only [''alias::b''])\<rparr>],
      returns = [Ret TensorType]\<rparr>"

section \<open>The alias maps as functions of the schema and the bindings\<close>

lemma alias_step_length: "length (alias_step sch vm p iam) = length iam"
  by (simp add: alias_step_def)

lemma fold_alias_step_length: "length (fold (alias_step sch vm) ps iam) = length iam"
  by (induction ps arbitrary: iam) (simp_all add: alias_step_length)

lemma fill_input_fst: "fst (fill_input sch vm p acc) = alias_step sch vm p (fst acc)"
  by (simp add: fill_input_def alias_step_def aliased_def Let_def split: option.splits)

lemma fold_fill_input_fst:
  "fst (fold (fill_input sch vm) ps acc) = fold (alias_step sch vm) ps (fst acc)"
  by (induction ps arbitrary: acc) (simp_all add: fill_input_fst)

lemma fill_output_fst: "fst (fill_output sch iam p acc) = output_step sch iam p (fst acc)"
  by (simp add: fill_output_def output_step_def Let_def)

lemma fold_fill_output_fst:
  "fst (fold (fill_output sch iam) ps acc) = fold (output_step sch iam) ps (fst acc)"
  by (induction ps arbitrary: acc) (simp_all add: fill_output_fst)

lemma generateAliasMaps_input:
  "input_alias_map (generateAliasMaps s) = computed_input_map (schema s) (value_map s)"
  by (simp add: generateAliasMaps_def Let_def computed_input_map_def fold_fill_input_fst)

lemma generateAliasMaps_output:
  "output_alias_map (generateAliasMaps s) = computed_output_map (schema s) (value_map s)"
  by (simp add: generateAliasMaps_def Let_def computed_output_map_def computed_input_map_def
      fold_fill_input_fst fold_fill_output_fst)

lemma generateAliasMaps_fields:
  "schema (generateAliasMaps s) = schema s"
  "value_map (generateAliasMaps s) = value_map s"
  "container_set (generateAliasMaps s) = container_set s"
  "alias_maps_current (generateAliasMaps s)"
  by (simp_all add: generateAliasMaps_def Let_def)

lemma alias_step_mem:
  assumes "fst p < length iam" "snd p < length iam" "a < length iam"
  shows "k \<in> set (alias_step sch vm p iam ! a) \<longleftrightarrow> k \<in> set (iam ! a) \<or> linked sch vm p a k"
  using assms by (auto simp: alias_step_def linked_def nth_list_update)

lemma fold_alias_step_mem:
  assumes "\<forall>p\<in>set ps. fst p < length iam \<and> snd p < length iam" "a < length iam"
  shows "k \<in> set (fold (alias_step sch vm) ps iam ! a)
         \<longleftrightarrow> k \<in> set (iam ! a) \<or> (\<exists>p\<in>set ps. linked sch vm p a k)"
  using assms
proof (induction ps arbitrary: iam)
  case Nil
  then show ?case by simp
next
  case (Cons p ps)
  have len: "length (alias_step sch vm p iam) = length iam" by (rule alias_step_length)
  have "k \<in> set (fold (alias_step sch vm) ps (alias_step sch vm p iam) ! a)
        \<longleftrightarrow> k \<in> set (alias_step sch vm p iam ! a) \<or> (\<exists>q\<in>set ps. linked sch vm q a k)"
    using Cons.prems by (intro Cons.IH) (simp_all add: len)
  also have "k \<in> set (alias_step sch vm p iam ! a) \<longleftrightarrow> k \<in> set (iam ! a) \<or> linked sch vm p a k"
    using Cons.prems by (intro alias_step_mem) simp_all
  finally show ?case by auto
qed

lemma set_upper_pairs: "set (upper_pairs n) = {(i, j). i \<le> j \<and> j < n}"
proof -
  have "(a, b) \<in> set (upper_pairs n) \<longleftrightarrow> a \<le> b \<and> b < n" for a b
    by (fastforce simp: upper_pairs_def)
  then show ?thesis by auto
qed

lemma set_all_pairs: "set (all_pairs n m) = {(i, j). i < n \<and> j < m}"
proof -
  have "(a, b) \<in> set (all_pairs n m) \<longleftrightarrow> a < n \<and> b < m" for a b
    by (fastforce simp: all_pairs_def)
  then show ?thesis by auto
qed

lemma computed_input_map_length:
  "length (computed_input_map sch vm) = length (arguments sch)"
  by (simp add: computed_input_map_def fold_alias_step_length)

lemma computed_input_map_mem:
  assumes "a < length (arguments sch)"
  shows "k \<in> set (computed_input_map sch vm ! a)
         \<longleftrightarrow> k = a \<or> (k < length (arguments sch) \<and> aliased sch vm (min a k) (max a k))"
proof -
  let ?n = "length (arguments sch)"
  have "k \<in> set (computed_input_map sch vm ! a)
        \<longleftrightarrow> k \<in> set (replicate ?n [] ! a) \<or> (\<exists>p\<in>set (upper_pairs ?n). linked sch vm p a k)"
    unfolding computed_input_map_def
    using assms by (intro fold_alias_step_mem) (auto simp: set_upper_pairs)
  also have "\<dots> \<longleftrightarrow> (\<exists>p\<in>set (upper_pairs ?n). linked sch vm p a k)"
    using assms by simp
  also have "\<dots> \<longleftrightarrow> k = a \<or> (k < ?n \<and> aliased sch vm (min a k) (max a k))"
  proof
    assume "\<exists>p\<in>set (upper_pairs ?n). linked sch vm p a k"
    then obtain i j where ij: "i \<le> j" "j < ?n" "linked sch vm (i, j) a k"
      by (auto simp: set_upper_pairs)
    then show "k = a \<or> (k < ?n \<and> aliased sch vm (min a k) (max a k))"
      by (auto simp: linked_def min_def max_def split: if_splits)
  next
    assume r: "k = a \<or> (k < ?n \<and> aliased sch vm (min a k) (max a k))"
    show "\<exists>p\<in>set (upper_pairs ?n). linked sch vm p a k"
    proof (cases "k = a")
      case True
      then have "(a, a) \<in> set (upper_pairs ?n)" "linked sch vm (a, a) a k"
        using assms by (auto simp: set_upper_pairs linked_def)
      then show ?thesis by blast
    next
      case False
      with r have k: "k < ?n" "aliased sch vm (min a k) (max a k)" by auto
      have "(min a k, max a k) \<in> set (upper_pairs ?n)"
        using assms k by (auto simp: set_upper_pairs)
      moreover have "linked sch vm (min a k, max a k) a k"
        using False k by (auto simp: linked_def min_def max_def)
      ultimately show ?thesis by blast
    qed
  qed
  finally show ?thesis .
qed

subsection \<open>The output alias map\<close>

lemma output_step_length: "length (output_step sch iam p oam) = length oam"
  by (simp add: output_step_def)

lemma fold_output_step_length: "length (fold (output_step sch iam) ps oam) = length oam"
  by (induction ps arbitrary: oam) (simp_all add: output_step_length)

lemma computed_output_map_length:
  "length (computed_output_map sch vm) = length (returns sch)"
  by (simp add: computed_output_map_def fold_output_step_length)

lemma output_step_mem:
  assumes "snd p < length oam" "j < length oam"
  shows "k \<in> set (output_step sch iam p oam ! j) \<longleftrightarrow>
         k \<in> set (oam ! j) \<or>
         (snd p = j \<and> k \<in> set (iam ! fst p) \<and>
          FunctionSchema_may_alias sch (SchemaArgument Input (fst p)) (SchemaArgument Output j)
            = Inr True)"
  using assms by (auto simp: output_step_def nth_list_update)

lemma fold_output_step_mem:
  assumes "\<forall>p\<in>set ps. snd p < length oam" "j < length oam"
  shows "k \<in> set (fold (output_step sch iam) ps oam ! j) \<longleftrightarrow>
         k \<in> set (oam ! j) \<or>
         (\<exists>p\<in>set ps. snd p = j \<and> k \<in> set (iam ! fst p) \<and>
            FunctionSchema_may_alias sch (SchemaArgument Input (fst p)) (SchemaArgument Output j)
              = Inr True)"
  using assms
proof (induction ps arbitrary: oam)
  case Nil
  then show ?case by simp
next
  case (Cons p ps)
  have len: "length (output_step sch iam p oam) = length oam" by (rule output_step_length)
  have "k \<in> set (fold (output_step sch iam) ps (output_step sch iam p oam) ! j) \<longleftrightarrow>
        k \<in> set (output_step sch iam p oam ! j) \<or>
        (\<exists>q\<in>set ps. snd q = j \<and> k \<in> set (iam ! fst q) \<and>
           FunctionSchema_may_alias sch (SchemaArgument Input (fst q)) (SchemaArgument Output j)
             = Inr True)"
    using Cons.prems by (intro Cons.IH) (simp_all add: len)
  also have "k \<in> set (output_step sch iam p oam ! j) \<longleftrightarrow>
        k \<in> set (oam ! j) \<or>
        (snd p = j \<and> k \<in> set (iam ! fst p) \<and>
          FunctionSchema_may_alias sch (SchemaArgument Input (fst p)) (SchemaArgument Output j)
            = Inr True)"
    using Cons.prems by (intro output_step_mem) simp_all
  finally show ?case by auto
qed

lemma FunctionSchema_may_alias_in_out:
  "FunctionSchema_may_alias sch (SchemaArgument Input i) (SchemaArgument Output j) = Inr True
   \<longleftrightarrow> i < length (arguments sch) \<and> j < length (returns sch)
        \<and> declared_may_alias (arguments sch ! i) (returns sch ! j)"
  by (simp add: FunctionSchema_may_alias_def getCorrectList_def)

lemma computed_output_map_mem:
  assumes "j < length (returns sch)"
  shows "k \<in> set (computed_output_map sch vm ! j) \<longleftrightarrow>
         (\<exists>i < length (arguments sch).
            declared_may_alias (arguments sch ! i) (returns sch ! j)
            \<and> k \<in> set (computed_input_map sch vm ! i))"
proof -
  let ?n = "length (arguments sch)" and ?m = "length (returns sch)"
  have "k \<in> set (computed_output_map sch vm ! j) \<longleftrightarrow>
        k \<in> set (replicate ?m [] ! j) \<or>
        (\<exists>p\<in>set (all_pairs ?n ?m). snd p = j \<and> k \<in> set (computed_input_map sch vm ! fst p) \<and>
            FunctionSchema_may_alias sch (SchemaArgument Input (fst p)) (SchemaArgument Output j)
              = Inr True)"
    unfolding computed_output_map_def
    using assms by (intro fold_output_step_mem) (auto simp: set_all_pairs)
  also have "\<dots> \<longleftrightarrow> (\<exists>i < ?n. declared_may_alias (arguments sch ! i) (returns sch ! j)
            \<and> k \<in> set (computed_input_map sch vm ! i))"
    using assms by (auto simp: set_all_pairs FunctionSchema_may_alias_in_out)
  finally show ?thesis .
qed

subsection \<open>The wildcard set only grows\<close>

lemma fill_input_wildcards: "snd acc \<subseteq> snd (fill_input sch vm p acc)"
  by (auto simp: fill_input_def Let_def split: option.splits)

lemma fold_fill_input_wildcards: "snd acc \<subseteq> snd (fold (fill_input sch vm) ps acc)"
proof (induction ps arbitrary: acc)
  case Nil
  show ?case by simp
next
  case (Cons p ps)
  have "snd acc \<subseteq> snd (fill_input sch vm p acc)" by (rule fill_input_wildcards)
  also have "\<dots> \<subseteq> snd (fold (fill_input sch vm) ps (fill_input sch vm p acc))" by (rule Cons.IH)
  finally show ?case by simp
qed

lemma fill_container_wildcards: "ws \<subseteq> fill_container sch vm iam p ws"
  by (auto simp: fill_container_def Let_def split: option.splits)

lemma fold_fill_container_wildcards: "ws \<subseteq> fold (fill_container sch vm iam) ps ws"
proof (induction ps arbitrary: ws)
  case Nil
  show ?case by simp
next
  case (Cons p ps)
  have "ws \<subseteq> fill_container sch vm iam p ws" by (rule fill_container_wildcards)
  also have "\<dots> \<subseteq> fold (fill_container sch vm iam) ps (fill_container sch vm iam p ws)"
    by (rule Cons.IH)
  finally show ?case by simp
qed

lemma fill_output_wildcards: "snd acc \<subseteq> snd (fill_output sch iam p acc)"
  by (auto simp: fill_output_def Let_def)

lemma fold_fill_output_wildcards: "snd acc \<subseteq> snd (fold (fill_output sch iam) ps acc)"
proof (induction ps arbitrary: acc)
  case Nil
  show ?case by simp
next
  case (Cons p ps)
  have "snd acc \<subseteq> snd (fill_output sch iam p acc)" by (rule fill_output_wildcards)
  also have "\<dots> \<subseteq> snd (fold (fill_output sch iam) ps (fill_output sch iam p acc))" by (rule Cons.IH)
  finally show ?case by simp
qed

lemma generateAliasMaps_wildcards: "wildcard_set s \<subseteq> wildcard_set (generateAliasMaps s)"
proof -
  let ?sch = "schema s" and ?vm = "value_map s"
  let ?n = "length (arguments ?sch)" and ?m = "length (returns ?sch)"
  let ?a1 = "fold (fill_input ?sch ?vm) (upper_pairs ?n) (replicate ?n [], wildcard_set s)"
  let ?ws2 = "fold (fill_container ?sch ?vm (fst ?a1)) (all_pairs ?n ?n) (snd ?a1)"
  let ?a3 = "fold (fill_output ?sch (fst ?a1)) (all_pairs ?n ?m) (replicate ?m [], ?ws2)"
  have "wildcard_set s \<subseteq> snd ?a1"
    using fold_fill_input_wildcards [of "(replicate ?n [], wildcard_set s)"] by simp
  also have "\<dots> \<subseteq> ?ws2" by (rule fold_fill_container_wildcards)
  also have "\<dots> \<subseteq> snd ?a3"
    using fold_fill_output_wildcards [of "(replicate ?m [], ?ws2)"] by simp
  also have "snd ?a3 = wildcard_set (generateAliasMaps s)"
    by (simp add: generateAliasMaps_def Let_def)
  finally show ?thesis .
qed

subsection \<open>The staleness flag\<close>

lemma maps_fresh_generate: "maps_fresh (generateAliasMaps s)"
  by (simp add: maps_fresh_def generateAliasMaps_input generateAliasMaps_output
      generateAliasMaps_fields)

lemma maps_fresh_ensure_current: "maps_fresh s \<Longrightarrow> maps_fresh (ensure_current s)"
  by (simp add: ensure_current_def maps_fresh_generate)

lemma ensure_current_fields:
  "schema (ensure_current s) = schema s"
  "value_map (ensure_current s) = value_map s"
  "container_set (ensure_current s) = container_set s"
  "alias_maps_current (ensure_current s)"
  by (simp_all add: ensure_current_def generateAliasMaps_fields)

lemma ensure_current_maps:
  assumes "maps_fresh s"
  shows "input_alias_map (ensure_current s) = computed_input_map (schema s) (value_map s)"
    and "output_alias_map (ensure_current s) = computed_output_map (schema s) (value_map s)"
  using assms
  by (auto simp: ensure_current_def maps_fresh_def generateAliasMaps_input generateAliasMaps_output)

lemma ensure_current_wildcards: "wildcard_set s \<subseteq> wildcard_set (ensure_current s)"
  by (simp add: ensure_current_def generateAliasMaps_wildcards)

lemma initSchemaInfo_fields:
  "schema (fst (initSchemaInfo s)) = schema s"
  "value_map (fst (initSchemaInfo s)) = value_map s"
  "alias_maps_current (fst (initSchemaInfo s)) = alias_maps_current s"
  "input_alias_map (fst (initSchemaInfo s)) = input_alias_map s"
  "output_alias_map (fst (initSchemaInfo s)) = output_alias_map s"
  by (simp_all add: initSchemaInfo_def Let_def)

lemma new_SchemaInfo_fields:
  "schema (fst (new_SchemaInfo sch)) = sch"
  "value_map (fst (new_SchemaInfo sch)) = Map.empty"
  "\<not> alias_maps_current (fst (new_SchemaInfo sch))"
  by (simp_all add: new_SchemaInfo_def initSchemaInfo_fields)

lemma maps_fresh_stale: "\<not> alias_maps_current s \<Longrightarrow> maps_fresh s"
  by (simp add: maps_fresh_def)

lemma addArgumentValue_Inr:
  assumes "addArgumentValue nm v s = Inr s'"
  shows "s' = s\<lparr>value_map := (value_map s)(nm \<mapsto> v), alias_maps_current := False\<rparr>"
    and "argumentIndexWithName (schema s) nm \<noteq> None"
  using assms by (auto simp: addArgumentValue_def split: option.splits)

lemma maps_fresh_addArgumentValue:
  "addArgumentValue nm v s = Inr s' \<Longrightarrow> maps_fresh s'"
  by (auto dest!: addArgumentValue_Inr(1) simp: maps_fresh_def)

lemma maps_fresh_bind_positional:
  "maps_fresh s \<Longrightarrow> maps_fresh (bind_positional i vs s)"
proof (induction i vs s rule: bind_positional.induct)
  case (1 i s)
  then show ?case by simp
next
  case (2 i vs s)
  then show ?case by simp
next
  case (3 i v vs s)
  show ?case
    unfolding bind_positional.simps
    by (rule "3.IH") (simp add: maps_fresh_def)
qed

lemma maps_fresh_addArgumentValues:
  "maps_fresh s \<Longrightarrow> addArgumentValues vl s = Inr s' \<Longrightarrow> maps_fresh s'"
  by (auto simp: addArgumentValues_def maps_fresh_bind_positional split: if_splits)

lemma maps_fresh_addArgumentValues_map:
  "maps_fresh s \<Longrightarrow> addArgumentValues_map kvs s = Inr s' \<Longrightarrow> maps_fresh s'"
proof (induction kvs arbitrary: s)
  case Nil
  then show ?case by simp
next
  case (Cons kv kvs)
  from Cons.prems(2) obtain s1 where s1: "addArgumentValue (fst kv) (snd kv) s = Inr s1"
    and rest: "addArgumentValues_map kvs s1 = Inr s'"
    by (auto split: sum.splits)
  from s1 have "maps_fresh s1" by (rule maps_fresh_addArgumentValue)
  then show ?case using rest by (rule Cons.IH)
qed

lemma is_mutable_arg_state:
  "is_mutable_arg s a = Inr (b, s') \<Longrightarrow> s' = ensure_current s"
  by (auto simp: is_mutable_arg_def Let_def split: if_splits sum.splits)

lemma is_mutable_name_state:
  "is_mutable_name s nm = Inr (b, s') \<Longrightarrow> s' = ensure_current s"
  by (auto simp: is_mutable_name_def dest: is_mutable_arg_state split: option.splits)

lemma maps_fresh_is_mutable_from:
  "maps_fresh s \<Longrightarrow> is_mutable_from idxs s = Inr (b, s') \<Longrightarrow> maps_fresh s'"
proof (induction idxs arbitrary: s)
  case Nil
  then show ?case by simp
next
  case (Cons i idxs)
  from Cons.prems(2) obtain r where r: "is_mutable_arg s (SchemaArgument Input i) = Inr r"
    by (auto split: sum.splits)
  then have "snd r = ensure_current s"
    using is_mutable_arg_state [of s "SchemaArgument Input i" "fst r" "snd r"] by simp
  then have fresh: "maps_fresh (snd r)" using Cons.prems(1) by (simp add: maps_fresh_ensure_current)
  show ?case
  proof (cases "fst r")
    case True
    then have "s' = snd r" using Cons.prems(2) r by simp
    then show ?thesis using fresh by simp
  next
    case False
    then have "is_mutable_from idxs (snd r) = Inr (b, s')" using Cons.prems(2) r by simp
    with fresh show ?thesis by (rule Cons.IH)
  qed
qed

lemma may_alias_state:
  "may_alias s lhs rhs = Inr (b, s') \<Longrightarrow> s' = s \<or> s' = ensure_current s"
  by (auto simp: may_alias_def Let_def split: if_splits sum.splits)

lemma reachable_maps_fresh: "reachable s \<Longrightarrow> maps_fresh s"
proof (induction rule: reachable.induct)
  case (r_new sch)
  show ?case by (rule maps_fresh_stale) (rule new_SchemaInfo_fields)
next
  case (r_bind s nm v s')
  then show ?case by (simp add: maps_fresh_addArgumentValue)
next
  case (r_bind_list s value_list s')
  then show ?case using maps_fresh_addArgumentValues by blast
next
  case (r_bind_map s "values" s')
  then show ?case using maps_fresh_addArgumentValues_map by blast
next
  case (r_generate s)
  then show ?case by (simp add: maps_fresh_ensure_current)
next
  case (r_is_mutable_arg s a b s')
  then show ?case using is_mutable_arg_state maps_fresh_ensure_current by blast
next
  case (r_is_mutable_name s nm b s')
  then show ?case using is_mutable_name_state maps_fresh_ensure_current by blast
next
  case (r_is_mutable s b s')
  then show ?case using maps_fresh_is_mutable_from unfolding is_mutable_def by blast
next
  case (r_may_alias s lhs rhs b s')
  then show ?case using may_alias_state maps_fresh_ensure_current by blast
qed

subsection \<open>Symmetry of the schema's declared relation\<close>

lemma canAliasTypeSetsAlias_sym: "canAliasTypeSetsAlias a b = canAliasTypeSetsAlias b a"
  by (auto simp: canAliasTypeSetsAlias_def list_ex_iff split: option.splits)

lemma declared_may_alias_sym: "declared_may_alias l r = declared_may_alias r l"
  by (auto simp: declared_may_alias_def canAliasTypeSetsAlias_sym [of "mapTypeToAliasTypeSet (arg_type l)"]
      list_ex_iff split: option.splits)

lemma FunctionSchema_may_alias_sym:
  "FunctionSchema_may_alias sch lhs rhs = FunctionSchema_may_alias sch rhs lhs"
  by (simp add: FunctionSchema_may_alias_def declared_may_alias_sym)

lemma FunctionSchema_may_alias_valid:
  "sa_index lhs < length (getCorrectList sch (sa_type lhs)) \<Longrightarrow>
   sa_index rhs < length (getCorrectList sch (sa_type rhs)) \<Longrightarrow>
   FunctionSchema_may_alias sch lhs rhs =
     Inr (declared_may_alias (getCorrectList sch (sa_type lhs) ! sa_index lhs)
                             (getCorrectList sch (sa_type rhs) ! sa_index rhs))"
  by (simp add: FunctionSchema_may_alias_def)

lemma declared_may_alias_right_self:
  "declared_may_alias l r \<Longrightarrow> declared_may_alias r r"
  by (auto simp: declared_may_alias_def canAliasTypeSetsAlias_def list_ex_iff split: option.splits)

lemma declared_may_alias_aliasable:
  "declared_may_alias l r \<Longrightarrow> aliasable (arg_type r)"
  by (auto simp: declared_may_alias_def aliasable_def canAliasTypeSetsAlias_def list_ex_iff
      split: option.splits)

lemma isAliasOf_sym: "isAliasOf v w = isAliasOf w v"
  by (cases v; cases w) auto

lemma aliased_sym: "aliased sch vm i j = aliased sch vm j i"
  by (auto simp: aliased_def isAliasOf_sym split: option.splits)

lemma computed_input_map_sym:
  assumes "a < length (arguments sch)" "k < length (arguments sch)"
  shows "k \<in> set (computed_input_map sch vm ! a) \<longleftrightarrow> a \<in> set (computed_input_map sch vm ! k)"
  using assms by (auto simp: computed_input_map_mem min.commute max.commute)

subsection \<open>The answer of may_alias on valid references\<close>

lemma may_alias_valid:
  assumes "valid_argument s lhs" "valid_argument s rhs"
  shows "may_alias s lhs rhs =
     (let l = getCorrectList (schema s) (sa_type lhs) ! sa_index lhs;
          r = getCorrectList (schema s) (sa_type rhs) ! sa_index rhs;
          s1 = ensure_current s
      in if declared_may_alias l r then Inr (True, s)
         else if \<not> canAliasTypeSetsAlias (mapTypeToAliasTypeSet (arg_type l))
                    (mapTypeToAliasTypeSet (arg_type r)) then Inr (False, s)
         else if lhs \<in> wildcard_set s1 \<and> rhs \<in> wildcard_set s1 then Inr (True, s1)
         else if sa_type lhs = Input \<and> sa_type rhs = Input then
           Inr (sa_index rhs \<in> set (input_alias_map s1 ! sa_index lhs), s1)
         else if sa_type lhs = Output \<and> sa_type rhs = Output then
           Inr (set (output_alias_map s1 ! sa_index lhs) \<inter> set (output_alias_map s1 ! sa_index rhs) \<noteq> {}, s1)
         else if sa_type lhs = Output then
           Inr (sa_index rhs \<in> set (output_alias_map s1 ! sa_index lhs), s1)
         else Inr (sa_index lhs \<in> set (output_alias_map s1 ! sa_index rhs), s1))"
proof -
  have inter: "list_ex (\<lambda>k. k \<in> set ys) xs \<longleftrightarrow> set xs \<inter> set ys \<noteq> {}" for xs ys :: "nat list"
    by (auto simp: list_ex_iff)
  show ?thesis
    using assms
    by (simp add: may_alias_def valid_argument_def FunctionSchema_may_alias_valid Let_def inter)
qed

subsection \<open>Reachable example states\<close>

lemma apply_bindings_reachable:
  "reachable s \<Longrightarrow> apply_bindings bs s = Inr s' \<Longrightarrow> reachable s'"
proof (induction bs arbitrary: s)
  case Nil
  then show ?case by simp
next
  case (Cons b bs)
  from Cons.prems(2) obtain s1 where s1: "apply_binding b s = Inr s1"
    and rest: "apply_bindings bs s1 = Inr s'"
    by (auto simp: then_do_def split: sum.splits)
  have "reachable s1"
  proof (cases b)
    case (BindName nm v)
    then show ?thesis using s1 Cons.prems(1) by (auto intro: r_bind)
  next
    case (BindPositional vl)
    then show ?thesis using s1 Cons.prems(1) by (auto intro: r_bind_list)
  next
    case (BindMap kvs)
    then show ?thesis using s1 Cons.prems(1) by (auto intro: r_bind_map)
  qed
  then show ?case using rest by (rule Cons.IH)
qed

lemma op_same_tensor_bound:
  "addArgumentValues [Some (IVTensor 5), Some (IVTensor 5)] (fst (new_SchemaInfo op_schema))
     = Inr op_same_tensor"
  by (simp add: addArgumentValues_def op_same_tensor_def new_SchemaInfo_fields)
     (simp add: op_schema_def Arg_def)

lemma reachable_op_same_tensor: "reachable op_same_tensor"
  using r_new op_same_tensor_bound by (rule r_bind_list)

lemma op_same_tensor_fields:
  "schema op_same_tensor = op_schema"
  "value_map op_same_tensor = [''x'' \<mapsto> IVTensor 5, ''y'' \<mapsto> IVTensor 5]"
  by (simp_all add: op_same_tensor_def new_SchemaInfo_fields)





lemma dropout_train_fields:
  "schema (dropout_train v) = dropout_schema"
  "value_map (dropout_train v) = [''train'' \<mapsto> v]"
  by (simp_all add: dropout_train_def new_SchemaInfo_fields)

lemma dropout_registry_tag: "has_nondeterministic_tag dropout_registry dropout_schema"
  by (simp add: has_nondeterministic_tag_def dropout_registry_def dropout_schema_def)

subsection \<open>Where the assertions fire\<close>


















subsection \<open>The classification passes\<close>

lemma warn_duplicate_inj: "warn_duplicate x = warn_duplicate n \<longleftrightarrow> x = n"
  by (simp add: warn_duplicate_def)

lemma track_afterSets_seen: "seen (track_afterSets xs st) = seen st \<union> set xs"
  by (induction xs arbitrary: st) auto

lemma track_afterSets_sets:
  "wildcards (track_afterSets xs st) = wildcards st"
  "containers (track_afterSets xs st) = containers st"
  by (induction xs arbitrary: st) auto

lemma track_afterSets_duplicates:
  "n \<in> duplicates st \<or> (n \<in> set xs \<and> n \<in> seen st) \<Longrightarrow> n \<in> duplicates (track_afterSets xs st)"
proof (induction xs arbitrary: st)
  case Nil
  then show ?case by simp
next
  case (Cons x xs)
  show ?case
    unfolding track_afterSets.simps
    by (rule Cons.IH) (use Cons.prems in auto)
qed

lemma track_afterSets_warnings:
  "distinct xs \<Longrightarrow>
   count_list (warnings (track_afterSets xs st)) (warn_duplicate n)
     = count_list (warnings st) (warn_duplicate n) + (if n \<in> set xs \<and> n \<in> seen st then 1 else 0)"
proof (induction xs arbitrary: st)
  case Nil
  then show ?case by simp
next
  case (Cons x xs)
  let ?st1 = "if x \<in> seen st
        then st\<lparr>warnings := warnings st @ [warn_duplicate x], duplicates := insert x (duplicates st)\<rparr>
        else st\<lparr>seen := insert x (seen st)\<rparr>"
  from Cons.prems have d: "distinct xs" and nx: "x \<notin> set xs" by simp_all
  have "count_list (warnings (track_afterSets (x # xs) st)) (warn_duplicate n)
        = count_list (warnings ?st1) (warn_duplicate n)
          + (if n \<in> set xs \<and> n \<in> seen ?st1 then 1 else 0)"
    unfolding track_afterSets.simps by (rule Cons.IH [OF d])
  also have "\<dots> = count_list (warnings st) (warn_duplicate n)
          + (if n \<in> set (x # xs) \<and> n \<in> seen st then 1 else 0)"
    using nx by (auto simp: warn_duplicate_inj)
  finally show ?case .
qed

lemma init_entry_seen: "seen (init_entry t i a st) = seen st \<union> {n. tracked a n}"
  by (auto simp: init_entry_def Let_def tracked_def track_afterSets_seen
      split: option.splits list.splits)

lemma init_entry_duplicates:
  "n \<in> duplicates st \<or> (tracked a n \<and> n \<in> seen st) \<Longrightarrow> n \<in> duplicates (init_entry t i a st)"
  by (auto simp: init_entry_def Let_def tracked_def intro: track_afterSets_duplicates
      split: option.splits list.splits)

lemma init_entry_warnings:
  assumes "case alias_info a of None \<Rightarrow> True | Some ai \<Rightarrow> distinct (afterSets ai)"
  shows "count_list (warnings (init_entry t i a st)) (warn_duplicate n)
     = count_list (warnings st) (warn_duplicate n) + (if tracked a n \<and> n \<in> seen st then 1 else 0)"
proof (cases "alias_info a")
  case None
  then show ?thesis
    by (simp add: init_entry_def Let_def tracked_def split: option.splits list.splits)
next
  case (Some ai)
  show ?thesis
  proof (cases "isWildcardAfter ai")
    case True
    with Some show ?thesis
      by (simp add: init_entry_def Let_def tracked_def split: option.splits list.splits)
  next
    case False
    have "distinct (afterSets ai)" using assms Some by simp
    from track_afterSets_warnings [OF this, of st n] Some False show ?thesis
      by (simp add: init_entry_def Let_def tracked_def split: option.splits list.splits)
  qed
qed

lemma init_entry_wildcards: "wildcards st \<subseteq> wildcards (init_entry t i a st)"
  by (auto simp: init_entry_def Let_def track_afterSets_sets split: option.splits list.splits)

lemma occurrences_Cons:
  "occurrences (a # l) n = (if tracked a n then 1 else 0) + occurrences l n"
  by (simp add: occurrences_def)

lemma occurrences_pos: "0 < occurrences l n \<longleftrightarrow> (\<exists>a\<in>set l. tracked a n)"
  by (auto simp: occurrences_def filter_empty_conv)

lemma occurrences_Nil: "occurrences [] n = 0"
  by (simp add: occurrences_def)

lemma init_loop_seen: "seen (init_loop t i l st) = seen st \<union> {n. 0 < occurrences l n}"
  by (induction l arbitrary: i st) (auto simp: init_entry_seen occurrences_Cons occurrences_Nil)

lemma init_loop_duplicates:
  "n \<in> duplicates st \<or> (n \<in> seen st \<and> 1 \<le> occurrences l n) \<or> 2 \<le> occurrences l n
   \<Longrightarrow> n \<in> duplicates (init_loop t i l st)"
proof (induction l arbitrary: i st)
  case Nil
  then show ?case by (simp add: occurrences_def)
next
  case (Cons a l)
  let ?st1 = "init_entry t i a st"
  have "n \<in> duplicates ?st1 \<or> (n \<in> seen ?st1 \<and> 1 \<le> occurrences l n) \<or> 2 \<le> occurrences l n"
    using Cons.prems init_entry_duplicates [of n st a t i]
    by (auto simp: init_entry_seen occurrences_Cons split: if_splits)
  then show ?case
    unfolding init_loop.simps by (rule Cons.IH)
qed

lemma init_loop_warnings:
  "afterSets_distinct l \<Longrightarrow>
   count_list (warnings (init_loop t i l st)) (warn_duplicate n)
     = count_list (warnings st) (warn_duplicate n)
       + (if n \<in> seen st then occurrences l n else occurrences l n - 1)"
proof (induction l arbitrary: i st)
  case Nil
  then show ?case by (simp add: occurrences_def)
next
  case (Cons a l)
  let ?st1 = "init_entry t i a st"
  from Cons.prems have da: "case alias_info a of None \<Rightarrow> True | Some ai \<Rightarrow> distinct (afterSets ai)"
    and dl: "afterSets_distinct l"
    by (simp_all add: afterSets_distinct_def)
  have "count_list (warnings (init_loop t i (a # l) st)) (warn_duplicate n)
        = count_list (warnings ?st1) (warn_duplicate n)
          + (if n \<in> seen ?st1 then occurrences l n else occurrences l n - 1)"
    unfolding init_loop.simps by (rule Cons.IH [OF dl])
  also have "\<dots> = count_list (warnings st) (warn_duplicate n)
       + (if n \<in> seen st then occurrences (a # l) n else occurrences (a # l) n - 1)"
    by (simp add: init_entry_warnings [OF da] init_entry_seen occurrences_Cons)
  finally show ?case .
qed

lemma init_loop_wildcards: "wildcards st \<subseteq> wildcards (init_loop t i l st)"
proof (induction l arbitrary: i st)
  case Nil
  show ?case by simp
next
  case (Cons a l)
  have "wildcards st \<subseteq> wildcards (init_entry t i a st)" by (rule init_entry_wildcards)
  also have "\<dots> \<subseteq> wildcards (init_loop t (Suc i) l (init_entry t i a st))" by (rule Cons.IH)
  finally show ?case by simp
qed

lemma init_schema_arguments_duplicates:
  "n \<in> duplicates st \<or> 2 \<le> occurrences l n \<Longrightarrow> n \<in> duplicates (init_schema_arguments l t st)"
  unfolding init_schema_arguments_def by (rule init_loop_duplicates) auto

lemma init_schema_arguments_warnings:
  "afterSets_distinct l \<Longrightarrow>
   count_list (warnings (init_schema_arguments l t st)) (warn_duplicate n)
     = count_list (warnings st) (warn_duplicate n) + (occurrences l n - 1)"
  by (simp add: init_schema_arguments_def init_loop_warnings)

lemma ensure_entry_fold:
  "fold (\<lambda>st w. if st \<in> dups then insert x w else w) xs ws
     = (if \<exists>st\<in>set xs. st \<in> dups then insert x ws else ws)"
  by (induction xs arbitrary: ws) auto

lemma ensure_entry_mem:
  "y \<in> ensure_entry dups t i a ws \<longleftrightarrow>
   y \<in> ws \<or> (y = SchemaArgument t i \<and> (\<exists>n\<in>dups. has_after a n))"
  by (auto simp: ensure_entry_def ensure_entry_fold has_after_def split: option.splits)

lemma ensure_loop_mem:
  "y \<in> ensure_loop dups t i l ws \<longleftrightarrow>
   y \<in> ws \<or> (\<exists>k < length l. y = SchemaArgument t (i + k) \<and> (\<exists>n\<in>dups. has_after (l ! k) n))"
proof (induction l arbitrary: i ws)
  case Nil
  show ?case by simp
next
  case (Cons a l)
  have "(\<exists>k < length (a # l). y = SchemaArgument t (i + k) \<and> (\<exists>n\<in>dups. has_after ((a # l) ! k) n))
        \<longleftrightarrow> (y = SchemaArgument t i \<and> (\<exists>n\<in>dups. has_after a n))
            \<or> (\<exists>k < length l. y = SchemaArgument t (Suc i + k) \<and> (\<exists>n\<in>dups. has_after (l ! k) n))"
    by (auto simp: less_Suc_eq_0_disj)
  then show ?case
    by (simp add: Cons.IH ensure_entry_mem)
qed

lemma ensureConservativity_mem:
  "y \<in> ensureConservativity dups l t ws \<longleftrightarrow>
   y \<in> ws \<or> (\<exists>k < length l. y = SchemaArgument t k \<and> (\<exists>n\<in>dups. has_after (l ! k) n))"
  by (simp add: ensureConservativity_def ensure_loop_mem)

section \<open>The claims\<close>

text \<open>
  C10. After every regeneration of the alias maps the input alias map has one set per
  input argument, every input index is a member of its own alias set, and for all input
  indices \<open>i\<close> and \<open>j\<close>, \<open>j\<close> is in the alias set of \<open>i\<close> exactly when \<open>i\<close> is in the alias
  set of \<open>j\<close>. The state before the regeneration is arbitrary.
\<close>

theorem input_alias_map_reflexive_symmetric:
  "length (input_alias_map (generateAliasMaps s)) = length (arguments (schema s)) \<and>
   (\<forall>i < length (arguments (schema s)). i \<in> set (input_alias_map (generateAliasMaps s) ! i)) \<and>
   (\<forall>i < length (arguments (schema s)). \<forall>j < length (arguments (schema s)).
      j \<in> set (input_alias_map (generateAliasMaps s) ! i)
      \<longleftrightarrow> i \<in> set (input_alias_map (generateAliasMaps s) ! j))"
  by (auto simp: generateAliasMaps_input computed_input_map_length computed_input_map_mem
      min.commute max.commute)

text \<open>
  The theorem at the object for \<^verbatim>\<open>op(Tensor(a!) x, Tensor y) -> Tensor(a!)\<close> with both
  arguments bound to one tensor.
\<close>

theorem input_alias_map_reflexive_symmetric_witness:
  "length (input_alias_map (generateAliasMaps op_same_tensor)) = 2 \<and>
   0 \<in> set (input_alias_map (generateAliasMaps op_same_tensor) ! 0) \<and>
   1 \<in> set (input_alias_map (generateAliasMaps op_same_tensor) ! 1) \<and>
   (1 \<in> set (input_alias_map (generateAliasMaps op_same_tensor) ! 0)
    \<longleftrightarrow> 0 \<in> set (input_alias_map (generateAliasMaps op_same_tensor) ! 1))"
proof -
  have sch: "schema op_same_tensor = op_schema"
    by (simp add: op_same_tensor_def new_SchemaInfo_def initSchemaInfo_def Let_def)
  have n: "length (arguments (schema op_same_tensor)) = 2"
    by (simp add: sch op_schema_def)
  show ?thesis
    using input_alias_map_reflexive_symmetric [of op_same_tensor] unfolding n by simp
qed

text \<open>
  C2. For the schema \<^verbatim>\<open>op(Tensor(a!) x, Tensor y) -> Tensor(a!)\<close> with no values bound,
  \<^verbatim>\<open>is_mutable\<close> on the argument \<open>x\<close> returns true, \<^verbatim>\<open>may_alias\<close> between output 0 and
  input \<open>x\<close> returns true, and \<^verbatim>\<open>may_alias\<close> between output 0 and input \<open>y\<close> returns
  false.
\<close>

theorem example_schema_queries:
  "map_sum id fst (is_mutable_name (fst (new_SchemaInfo op_schema)) ''x'') = Inr True \<and>
   map_sum id fst (may_alias (fst (new_SchemaInfo op_schema))
      (SchemaArgument Output 0) (SchemaArgument Input 0)) = Inr True \<and>
   map_sum id fst (may_alias (fst (new_SchemaInfo op_schema))
      (SchemaArgument Output 0) (SchemaArgument Input 1)) = Inr False"
  by code_simp



text \<open>
  C5. In every state that an object can reach, for every pair of valid argument or return
  references \<open>a\<close> and \<open>b\<close>, \<^verbatim>\<open>may_alias(a, b)\<close> returns a result, and it is the result of
  \<^verbatim>\<open>may_alias(b, a)\<close>: the same answer and the same state afterwards.
\<close>

theorem may_alias_symmetric:
  assumes "reachable s" "valid_argument s a" "valid_argument s b"
  shows "may_alias s a b = may_alias s b a \<and> (\<exists>r. may_alias s a b = Inr r)"
proof -
  let ?s1 = "ensure_current s"
  have fresh: "maps_fresh s" using assms(1) by (rule reachable_maps_fresh)
  have iam: "input_alias_map ?s1 = computed_input_map (schema s) (value_map s)"
    using fresh by (rule ensure_current_maps)
  have ex: "\<exists>r. may_alias s a b = Inr r"
    by (auto simp: may_alias_valid [OF assms(2,3)] Let_def)
  have in_in: "sa_index b \<in> set (input_alias_map ?s1 ! sa_index a)
               \<longleftrightarrow> sa_index a \<in> set (input_alias_map ?s1 ! sa_index b)"
    if "sa_type a = Input" "sa_type b = Input"
    using that assms(2,3) unfolding iam
    by (intro computed_input_map_sym) (simp_all add: valid_argument_def getCorrectList_def)
  have types: "sa_type a = Output" if "sa_type a \<noteq> Input"
    using that by (cases "sa_type a") simp_all
  have typesb: "sa_type b = Output" if "sa_type b \<noteq> Input"
    using that by (cases "sa_type b") simp_all
  have "may_alias s a b = may_alias s b a"
    unfolding may_alias_valid [OF assms(2,3)] may_alias_valid [OF assms(3,2)] Let_def
    using in_in types typesb
    by (auto simp: declared_may_alias_sym [of "getCorrectList (schema s) (sa_type b) ! sa_index b"]
        canAliasTypeSetsAlias_sym [of "mapTypeToAliasTypeSet (arg_type (getCorrectList (schema s) (sa_type b) ! sa_index b))"])
  with ex show ?thesis by simp
qed

text \<open>
  The theorem at the object for \<^verbatim>\<open>op(Tensor(a!) x, Tensor y) -> Tensor(a!)\<close> with both
  arguments bound to one tensor, for the two inputs and for the output and input \<open>y\<close>.
\<close>

theorem may_alias_symmetric_witness:
  "may_alias op_same_tensor (SchemaArgument Input 0) (SchemaArgument Input 1)
     = may_alias op_same_tensor (SchemaArgument Input 1) (SchemaArgument Input 0) \<and>
   may_alias op_same_tensor (SchemaArgument Output 0) (SchemaArgument Input 1)
     = may_alias op_same_tensor (SchemaArgument Input 1) (SchemaArgument Output 0)"
proof -
  have v: "valid_argument op_same_tensor (SchemaArgument Input 0)"
    "valid_argument op_same_tensor (SchemaArgument Input 1)"
    "valid_argument op_same_tensor (SchemaArgument Output 0)"
    by (simp_all add: valid_argument_def getCorrectList_def op_same_tensor_fields op_schema_def)
  show ?thesis
    using may_alias_symmetric [OF reachable_op_same_tensor v(1) v(2)]
      may_alias_symmetric [OF reachable_op_same_tensor v(3) v(2)]
    by simp
qed

text \<open>
  C4, amended. In every state that an object can reach: for a valid input reference \<open>x\<close>,
  \<^verbatim>\<open>may_alias(x, x)\<close> returns true exactly when the type of \<open>x\<close> is aliasable; for a valid
  output reference \<open>x\<close>, \<^verbatim>\<open>may_alias(x, x)\<close> returns true exactly when the schema declares
  \<open>x\<close> to alias itself (an annotation with an after-set on an aliasable type), or the type of
  \<open>x\<close> is aliasable and \<open>x\<close> is in the wildcard set after the maps were brought up to date.
\<close>

theorem may_alias_self:
  assumes "reachable s"
  shows "(i < length (arguments (schema s)) \<longrightarrow>
            map_sum id fst (may_alias s (SchemaArgument Input i) (SchemaArgument Input i))
              = Inr (aliasable (arg_type (arguments (schema s) ! i)))) \<and>
         (j < length (returns (schema s)) \<longrightarrow>
            map_sum id fst (may_alias s (SchemaArgument Output j) (SchemaArgument Output j))
              = Inr (declared_may_alias (returns (schema s) ! j) (returns (schema s) ! j)
                     \<or> (aliasable (arg_type (returns (schema s) ! j))
                        \<and> SchemaArgument Output j \<in> wildcard_set (ensure_current s))))"
proof (intro conjI impI)
  let ?s1 = "ensure_current s"
  have fresh: "maps_fresh s" using assms by (rule reachable_maps_fresh)
  have iam: "input_alias_map ?s1 = computed_input_map (schema s) (value_map s)"
    and oam: "output_alias_map ?s1 = computed_output_map (schema s) (value_map s)"
    using fresh by (rule ensure_current_maps)+
  {
    assume i: "i < length (arguments (schema s))"
    then have v: "valid_argument s (SchemaArgument Input i)"
      by (simp add: valid_argument_def getCorrectList_def)
    have self: "i \<in> set (input_alias_map ?s1 ! i)"
      unfolding iam using i by (simp add: computed_input_map_mem)
    show "map_sum id fst (may_alias s (SchemaArgument Input i) (SchemaArgument Input i))
            = Inr (aliasable (arg_type (arguments (schema s) ! i)))"
      using self declared_may_alias_aliasable [of "arguments (schema s) ! i" "arguments (schema s) ! i"]
      by (auto simp: may_alias_valid [OF v v] Let_def getCorrectList_def aliasable_def)
  }
  {
    assume j: "j < length (returns (schema s))"
    then have v: "valid_argument s (SchemaArgument Output j)"
      by (simp add: valid_argument_def getCorrectList_def)
    have empty: "set (output_alias_map ?s1 ! j) = {}"
      if nd: "\<not> declared_may_alias (returns (schema s) ! j) (returns (schema s) ! j)"
    proof -
      have nk: "k \<notin> set (computed_output_map (schema s) (value_map s) ! j)" for k
        using nd declared_may_alias_right_self by (auto simp: computed_output_map_mem [OF j])
      show ?thesis
        unfolding oam
      proof (rule equals0I)
        fix k
        assume "k \<in> set (computed_output_map (schema s) (value_map s) ! j)"
        with nk [of k] show False by simp
      qed
    qed
    show "map_sum id fst (may_alias s (SchemaArgument Output j) (SchemaArgument Output j))
            = Inr (declared_may_alias (returns (schema s) ! j) (returns (schema s) ! j)
                   \<or> (aliasable (arg_type (returns (schema s) ! j))
                      \<and> SchemaArgument Output j \<in> wildcard_set (ensure_current s)))"
      using empty
      by (auto simp: may_alias_valid [OF v v] Let_def getCorrectList_def aliasable_def)
  }
qed

text \<open>
  The theorem at the object for \<^verbatim>\<open>op(Tensor(a!) x, Tensor y) -> Tensor(a!)\<close> with both
  arguments bound to one tensor: the input \<open>y\<close> and the output alias themselves.
\<close>

theorem may_alias_self_witness:
  "map_sum id fst (may_alias op_same_tensor (SchemaArgument Input 1) (SchemaArgument Input 1))
     = Inr True \<and>
   map_sum id fst (may_alias op_same_tensor (SchemaArgument Output 0) (SchemaArgument Output 0))
     = Inr True"
proof -
  have "aliasable (arg_type (arguments (schema op_same_tensor) ! 1))"
    by (simp add: op_same_tensor_fields op_schema_def Arg_def aliasable_def canAliasTypeSetsAlias_def)
  moreover have "declared_may_alias (returns (schema op_same_tensor) ! 0) (returns (schema op_same_tensor) ! 0)"
    by (simp add: op_same_tensor_fields op_schema_def Ret_def written_def declared_may_alias_def
        canAliasTypeSetsAlias_def)
  moreover have "1 < length (arguments (schema op_same_tensor))"
    "0 < length (returns (schema op_same_tensor))"
    by (simp_all add: op_same_tensor_fields op_schema_def)
  ultimately show ?thesis
    using may_alias_self [OF reachable_op_same_tensor, of 1 0] by simp
qed

text \<open>
  C4 as stated fails on \<^verbatim>\<open>plain(Tensor x, int n) -> Tensor\<close> with no bindings: output 0 and
  input \<open>n\<close> are valid references, and \<^verbatim>\<open>may_alias\<close> of each with itself returns false. The
  output has no input in its alias set, and an \<^verbatim>\<open>int\<close> is not aliasable.
\<close>

theorem may_alias_self_counterexample:
  "valid_argument (fst (new_SchemaInfo plain_schema)) (SchemaArgument Output 0) \<and>
   map_sum id fst (may_alias (fst (new_SchemaInfo plain_schema))
      (SchemaArgument Output 0) (SchemaArgument Output 0)) = Inr False \<and>
   valid_argument (fst (new_SchemaInfo plain_schema)) (SchemaArgument Input 1) \<and>
   map_sum id fst (may_alias (fst (new_SchemaInfo plain_schema))
      (SchemaArgument Input 1) (SchemaArgument Input 1)) = Inr False"
  by code_simp

text \<open>
  C6, amended. Take a state that an object can reach (its alias maps may have been
  computed) and any sequence of binding operations (by name, by position, by map) that
  succeeds on it. If afterwards two input arguments whose declared types can alias are
  bound to values that are alias-identical, the next \<^verbatim>\<open>may_alias\<close> query on that pair
  returns true.
\<close>

theorem aliased_bindings_may_alias:
  assumes "reachable s" "apply_bindings bs s = Inr s'"
    and "i < length (arguments (schema s'))" "j < length (arguments (schema s'))"
    and "value_map s' (arg_name (arguments (schema s') ! i)) = Some v"
    and "value_map s' (arg_name (arguments (schema s') ! j)) = Some w"
    and "isAliasOf v w"
    and "canAliasTypeSetsAlias (mapTypeToAliasTypeSet (arg_type (arguments (schema s') ! i)))
           (mapTypeToAliasTypeSet (arg_type (arguments (schema s') ! j)))"
  shows "map_sum id fst (may_alias s' (SchemaArgument Input i) (SchemaArgument Input j)) = Inr True"
proof -
  let ?s1 = "ensure_current s'"
  have "reachable s'" using assms(1,2) by (rule apply_bindings_reachable)
  then have fresh: "maps_fresh s'" by (rule reachable_maps_fresh)
  have iam: "input_alias_map ?s1 = computed_input_map (schema s') (value_map s')"
    using fresh by (rule ensure_current_maps)
  have v: "valid_argument s' (SchemaArgument Input i)" "valid_argument s' (SchemaArgument Input j)"
    using assms(3,4) by (simp_all add: valid_argument_def getCorrectList_def)
  have al: "aliased (schema s') (value_map s') i j"
    using assms(5-7) by (simp add: aliased_def bound_value_def)
  then have "aliased (schema s') (value_map s') (min i j) (max i j)"
    using aliased_sym [of "schema s'" "value_map s'" i j] by (auto simp: min_def max_def)
  then have mem: "j \<in> set (input_alias_map ?s1 ! i)"
    unfolding iam using assms(3,4) by (simp add: computed_input_map_mem)
  show ?thesis
    using mem assms(8) by (auto simp: may_alias_valid [OF v] Let_def getCorrectList_def)
qed

text \<open>
  The theorem at an object for \<^verbatim>\<open>op(Tensor(a!) x, Tensor y) -> Tensor(a!)\<close> whose alias
  maps are current: \<open>x\<close> is bound by name and \<open>y\<close> by position to one tensor, and the query
  that follows returns true.
\<close>

theorem aliased_bindings_may_alias_witness:
  "alias_maps_current (ensure_current (fst (new_SchemaInfo op_schema))) \<and>
   map_sum id fst
     (then_do (apply_bindings [BindName ''x'' (IVTensor 5), BindPositional [None, Some (IVTensor 5)]]
                 (ensure_current (fst (new_SchemaInfo op_schema))))
        (\<lambda>s. may_alias s (SchemaArgument Input 0) (SchemaArgument Input 1))) = Inr True"
proof -
  let ?s = "ensure_current (fst (new_SchemaInfo op_schema))"
  let ?bs = "[BindName ''x'' (IVTensor 5), BindPositional [None, Some (IVTensor 5)]]"
  let ?s' = "?s\<lparr>value_map := [''x'' \<mapsto> IVTensor 5, ''y'' \<mapsto> IVTensor 5],
                alias_maps_current := False\<rparr>"
  have r: "reachable ?s" by (intro r_generate r_new)
  have sch: "schema ?s = op_schema" and vm: "value_map ?s = Map.empty"
    by (simp_all add: ensure_current_fields new_SchemaInfo_fields)
  have names: "argumentIndexWithName op_schema ''x'' = Some 0"
    "arg_name (arguments op_schema ! Suc 0) = ''y''" "length (arguments op_schema) = 2"
    "arg_name (arguments op_schema ! 0) = ''x''"
    "arg_type (arguments op_schema ! 0) = TensorType"
    "arg_type (arguments op_schema ! Suc 0) = TensorType"
    by (simp_all add: argumentIndexWithName_def op_schema_def Arg_def)
  have b: "apply_bindings ?bs ?s = Inr ?s'"
    by (simp add: then_do_def addArgumentValue_def addArgumentValues_def sch vm names)
  have sch': "schema ?s' = op_schema"
    and vm': "value_map ?s' = [''x'' \<mapsto> IVTensor 5, ''y'' \<mapsto> IVTensor 5]"
    by (simp_all add: sch)
  have "map_sum id fst (may_alias ?s' (SchemaArgument Input 0) (SchemaArgument Input 1)) = Inr True"
    using r b
  proof (rule aliased_bindings_may_alias)
    show "isAliasOf (IVTensor 5) (IVTensor 5)" by simp
    show "0 < length (arguments (schema ?s'))" "1 < length (arguments (schema ?s'))"
      unfolding sch' by (simp_all add: names)
    show "value_map ?s' (arg_name (arguments (schema ?s') ! 0)) = Some (IVTensor 5)"
      unfolding sch' vm' by (simp add: names)
    show "value_map ?s' (arg_name (arguments (schema ?s') ! 1)) = Some (IVTensor 5)"
      unfolding sch' vm' by (simp add: names)
    show "canAliasTypeSetsAlias (mapTypeToAliasTypeSet (arg_type (arguments (schema ?s') ! 0)))
           (mapTypeToAliasTypeSet (arg_type (arguments (schema ?s') ! 1)))"
      unfolding sch' by (simp add: names canAliasTypeSetsAlias_def)
  qed
  then show ?thesis
    unfolding b then_do_def sum.case
    by (simp add: ensure_current_fields)
qed

text \<open>
  C6 as stated fails on \<^verbatim>\<open>lists(Tensor[] a, Tensor?[] b) -> Tensor\<close>: both arguments are
  bound to one list object, and \<^verbatim>\<open>may_alias\<close> on the pair returns false, because the two
  declared types cannot alias and the query answers before it looks at the bindings.
\<close>

theorem aliased_bindings_may_alias_counterexample:
  "isAliasOf (IVList 3 []) (IVList 3 []) \<and>
   map_sum id fst
     (then_do (apply_bindings [BindName ''a'' (IVList 3 []), BindName ''b'' (IVList 3 [])]
                 (fst (new_SchemaInfo lists_schema)))
        (\<lambda>s. may_alias s (SchemaArgument Input 0) (SchemaArgument Input 1))) = Inr False"
  by code_simp




text \<open>
  C8. \<^verbatim>\<open>is_nondeterministic()\<close> returns false when the schema equals
  \<^verbatim>\<open>aten::dropout(Tensor input, float p, bool train) -> Tensor\<close> and \<open>train\<close> is bound to false.
  When \<open>train\<close> is bound to true, when \<open>train\<close> is unbound, and when the schema is another
  one, it returns what the operator-tag registry reports for the schema's name and overload
  name: true exactly when the operator is found and carries the non-deterministic tag.
\<close>

theorem is_nondeterministic_cases:
  "(schema s = dropout_schema \<and> value_map s ''train'' = Some (IVBool False) \<longrightarrow>
      is_nondeterministic findOp s = Inr False) \<and>
   (schema s = dropout_schema \<and> value_map s ''train'' = Some (IVBool True) \<longrightarrow>
      is_nondeterministic findOp s = Inr (has_nondeterministic_tag findOp (schema s))) \<and>
   (value_map s ''train'' = None \<longrightarrow>
      is_nondeterministic findOp s = Inr (has_nondeterministic_tag findOp (schema s))) \<and>
   (schema s \<noteq> dropout_schema \<longrightarrow>
      is_nondeterministic findOp s = Inr (has_nondeterministic_tag findOp (schema s))) \<and>
   (has_nondeterministic_tag findOp (schema s) \<longleftrightarrow>
      (\<exists>tags. findOp (schema_name (schema s), overload_name (schema s)) = Some tags
              \<and> nondeterministic_seeded \<in> set tags))"
  by (auto simp: is_nondeterministic_def has_nondeterministic_tag_def split: option.splits)

text \<open>
  The theorem with a registry that tags \<^verbatim>\<open>aten::dropout\<close> as non-deterministic: dropout
  with \<open>train\<close> false, with \<open>train\<close> true and with \<open>train\<close> unbound, and a schema that is
  not registered.
\<close>

theorem is_nondeterministic_cases_witness:
  "is_nondeterministic dropout_registry (dropout_train (IVBool False)) = Inr False \<and>
   is_nondeterministic dropout_registry (dropout_train (IVBool True)) = Inr True \<and>
   is_nondeterministic dropout_registry (fst (new_SchemaInfo dropout_schema)) = Inr True \<and>
   is_nondeterministic dropout_registry (fst (new_SchemaInfo op_schema)) = Inr False"
proof -
  have ne: "op_schema \<noteq> dropout_schema"
    by (simp add: op_schema_def dropout_schema_def)
  have nt: "\<not> has_nondeterministic_tag dropout_registry op_schema"
    by (simp add: has_nondeterministic_tag_def dropout_registry_def op_schema_def)
  show ?thesis
    using is_nondeterministic_cases [of "dropout_train (IVBool False)" dropout_registry]
      is_nondeterministic_cases [of "dropout_train (IVBool True)" dropout_registry]
      is_nondeterministic_cases [of "fst (new_SchemaInfo dropout_schema)" dropout_registry]
      is_nondeterministic_cases [of "fst (new_SchemaInfo op_schema)" dropout_registry]
      ne nt
    by (simp add: dropout_train_fields new_SchemaInfo_fields dropout_registry_tag)
qed



text \<open>
  C7, amended. If an alias-set name appears in the after-sets of two or more entries of
  one list (the argument list or the return list) whose annotations are not wildcard-after,
  then after classification every entry of either list whose after-set contains that name
  is in the wildcard set. The warning for a name is emitted once for each such occurrence
  after the first in a list: with after-sets that do not repeat a name, the number of
  warnings for the name is its occurrences less one in the argument list plus its
  occurrences less one in the return list.
\<close>

theorem duplicate_alias_sets_conservative:
  "((2 \<le> occurrences (arguments sch) n \<or> 2 \<le> occurrences (returns sch) n)
      \<and> k < length (getCorrectList sch t) \<and> has_after (getCorrectList sch t ! k) n
    \<longrightarrow> SchemaArgument t k \<in> wildcard_set (fst (new_SchemaInfo sch))) \<and>
   (afterSets_distinct (arguments sch) \<and> afterSets_distinct (returns sch)
    \<longrightarrow> count_list (snd (new_SchemaInfo sch)) (warn_duplicate n)
          = (occurrences (arguments sch) n - 1) + (occurrences (returns sch) n - 1))"
proof (intro conjI impI)
  let ?st0 = "\<lparr>seen = {}, duplicates = {}, warnings = [],
                wildcards = {}, containers = {}\<rparr> :: init_state"
  let ?st1 = "init_schema_arguments (arguments sch) Input ?st0"
  let ?st2 = "init_schema_arguments (returns sch) Output ?st1"
  let ?ws3 = "ensureConservativity (duplicates ?st2) (arguments sch) Input (wildcards ?st2)"
  let ?ws4 = "ensureConservativity (duplicates ?st2) (returns sch) Output ?ws3"
  have ws: "wildcard_set (fst (new_SchemaInfo sch)) = ?ws4"
    and wn: "snd (new_SchemaInfo sch) = warnings ?st2"
    by (simp_all add: new_SchemaInfo_def initSchemaInfo_def Let_def)
  {
    assume h: "(2 \<le> occurrences (arguments sch) n \<or> 2 \<le> occurrences (returns sch) n)
      \<and> k < length (getCorrectList sch t) \<and> has_after (getCorrectList sch t ! k) n"
    have "n \<in> duplicates ?st2"
    proof (cases "2 \<le> occurrences (arguments sch) n")
      case True
      then have "n \<in> duplicates ?st1" by (intro init_schema_arguments_duplicates) simp
      then show ?thesis by (intro init_schema_arguments_duplicates) simp
    next
      case False
      with h have "2 \<le> occurrences (returns sch) n" by simp
      then show ?thesis by (intro init_schema_arguments_duplicates) simp
    qed
    with h show "SchemaArgument t k \<in> wildcard_set (fst (new_SchemaInfo sch))"
      unfolding ws by (cases t) (auto simp: ensureConservativity_mem getCorrectList_def)
  }
  {
    assume d: "afterSets_distinct (arguments sch) \<and> afterSets_distinct (returns sch)"
    then show "count_list (snd (new_SchemaInfo sch)) (warn_duplicate n)
          = (occurrences (arguments sch) n - 1) + (occurrences (returns sch) n - 1)"
      unfolding wn by (simp add: init_schema_arguments_warnings)
  }
qed

text \<open>
  The theorem at \<^verbatim>\<open>pair(Tensor(a) x, Tensor(a) y, Tensor z) -> Tensor(a)\<close>: the two arguments
  and the return that name \<open>a\<close> are in the wildcard set, and the warning for \<open>a\<close> is emitted
  exactly once.
\<close>

theorem duplicate_alias_sets_conservative_witness:
  "SchemaArgument Input 0 \<in> wildcard_set (fst (new_SchemaInfo pair_schema)) \<and>
   SchemaArgument Input 1 \<in> wildcard_set (fst (new_SchemaInfo pair_schema)) \<and>
   SchemaArgument Output 0 \<in> wildcard_set (fst (new_SchemaInfo pair_schema)) \<and>
   count_list (snd (new_SchemaInfo pair_schema)) (warn_duplicate ''alias::a'') = 1"
proof -
  have occ: "occurrences (arguments pair_schema) ''alias::a'' = 2"
    "occurrences (returns pair_schema) ''alias::a'' = 1"
    by code_simp+
  have has: "has_after (getCorrectList pair_schema Input ! 0) ''alias::a''"
    "has_after (getCorrectList pair_schema Input ! 1) ''alias::a''"
    "has_after (getCorrectList pair_schema Output ! 0) ''alias::a''"
    by code_simp+
  have len: "0 < length (getCorrectList pair_schema Input)"
    "1 < length (getCorrectList pair_schema Input)"
    "0 < length (getCorrectList pair_schema Output)"
    by code_simp+
  have d: "afterSets_distinct (arguments pair_schema)" "afterSets_distinct (returns pair_schema)"
    by code_simp+
  show ?thesis
    using duplicate_alias_sets_conservative [of pair_schema "''alias::a''" 0 Input]
      duplicate_alias_sets_conservative [of pair_schema "''alias::a''" 1 Input]
      duplicate_alias_sets_conservative [of pair_schema "''alias::a''" 0 Output]
      occ has len d
    by simp
qed

text \<open>
  C7 as stated fails twice. On \<^verbatim>\<open>three(Tensor(a) x, Tensor(a) y, Tensor(a) z) -> Tensor\<close>
  the one duplicate name \<open>a\<close> is warned about twice, once for each entry after the first.
  On \<^verbatim>\<open>mixed(Tensor(b|*) x, Tensor(b) y) -> Tensor\<close> the name \<open>b\<close> is in the after-sets of
  both arguments, but \<open>x\<close> is wildcard-after and its after-sets are not looked at, so \<open>b\<close>
  is never a duplicate and \<open>y\<close> is not in the wildcard set.
\<close>

theorem duplicate_alias_sets_counterexample:
  "occurrences (arguments three_schema) ''alias::a'' = 3 \<and>
   count_list (snd (new_SchemaInfo three_schema)) (warn_duplicate ''alias::a'') = 2 \<and>
   has_after (arguments mixed_schema ! 0) ''alias::b'' \<and>
   has_after (arguments mixed_schema ! 1) ''alias::b'' \<and>
   SchemaArgument Input 1 \<notin> wildcard_set (fst (new_SchemaInfo mixed_schema))"
  by code_simp

end
